theory Spec2Isabelle
  imports Complex_Main "HOL-Library.Sublist"
begin

section \<open>Data model\<close>

text \<open>
  The admin component imports the types \<open>Category\<close> and \<open>JewelryItem\<close> from
  \<open>lib/supabase\<close>. A JavaScript string is a \<open>string\<close> here; a field that may be \<open>null\<close> or
  \<open>undefined\<close> is an \<open>option\<close>, with \<open>None\<close> for both. The field \<open>id\<close> is written \<open>cat_id\<close>
  (HOL has a constant \<open>id\<close>).
\<close>

text \<open>
  Modelled from the spec: the declaration of the type \<open>Category\<close> (\<open>lib/supabase\<close>), from the
  record shape \<open>{ id, name, description?, image_url?, parent_id? }\<close>.
\<close>

record Category =
  cat_id :: string
  name :: string
  description :: "string option"
  image_url :: "string option"
  parent_id :: "string option"

text \<open>
  Modelled from the spec: the declaration of the type \<open>JewelryItem\<close> (\<open>lib/supabase\<close>); the
  component reads its field \<open>category\<close> only.
\<close>

record JewelryItem =
  category :: string

text \<open>
  JavaScript's truthiness of an optional string, as \<open>!cat.parent_id\<close>, \<open>x || y\<close> and
  \<open>c ? a : b\<close> test it: \<open>null\<close>, \<open>undefined\<close> and the empty string are falsy.
\<close>

definition truthy :: "string option \<Rightarrow> bool" where
  "truthy v = (case v of None \<Rightarrow> False | Some s \<Rightarrow> s \<noteq> [])"

section \<open>Strings: \<open>split(',')\<close> and \<open>trim()\<close>\<close>

text \<open>
  \<open>s.split(',')\<close>: the segments between the commas; never an empty array (the empty string
  gives one empty segment).
\<close>

fun split_comma :: "string \<Rightarrow> string list" where
  "split_comma [] = [[]]"
| "split_comma (c # cs) =
     (if c = CHR '','' then [] # split_comma cs
      else (case split_comma cs of
              [] \<Rightarrow> [[c]]
            | seg # segs \<Rightarrow> (c # seg) # segs))"

text \<open>
  \<open>s.trim()\<close> removes white space at both ends. A \<open>char\<close> stands for a code unit below 256:
  the white space there is tab, line feed, vertical tab, form feed, carriage return, space
  and the no-break space.
\<close>

definition is_space :: "char \<Rightarrow> bool" where
  "is_space c = (c \<in> {CHR 0x09, CHR 0x0A, CHR 0x0B, CHR 0x0C, CHR 0x0D, CHR 0x20, CHR 0xA0})"

definition trim :: "string \<Rightarrow> string" where
  "trim s = rev (dropWhile is_space (rev (dropWhile is_space s)))"

section \<open>Derived values of the category tree presenter\<close>

definition topLevelCategories :: "Category list \<Rightarrow> Category list" where
  "topLevelCategories categories = filter (\<lambda>cat. \<not> truthy (parent_id cat)) categories"

definition getSubcategories :: "Category list \<Rightarrow> string \<Rightarrow> Category list" where
  "getSubcategories categories parentId =
     filter (\<lambda>cat. parent_id cat = Some parentId) categories"

definition getItemCount :: "JewelryItem list \<Rightarrow> string \<Rightarrow> nat" where
  "getItemCount items categoryName =
     length (filter (\<lambda>item. category item = categoryName) items)"

definition getImageCount :: "Category \<Rightarrow> nat" where
  "getImageCount cat =
     (case image_url cat of
        None \<Rightarrow> 0
      | Some s \<Rightarrow>
          if s = [] then 0
          else length (filter (\<lambda>url. url \<noteq> []) (map trim (split_comma s))))"

definition fallbackImage :: string where
  "fallbackImage = ''https://images.pexels.com/photos/265856/pexels-photo-265856.jpeg''"

text \<open>
  The \<open>src\<close> of the card's image:
  \<open>category.image_url?.split(',')[0]?.trim() || fallback\<close>.
\<close>

definition coverImage :: "Category \<Rightarrow> string" where
  "coverImage cat =
     (case image_url cat of
        None \<Rightarrow> fallbackImage
      | Some s \<Rightarrow>
          (case split_comma s of
             [] \<Rightarrow> fallbackImage
           | seg # _ \<Rightarrow> if trim seg = [] then fallbackImage else trim seg))"

text \<open>The spec's words for the image count: the segments that are non-empty once trimmed.\<close>

definition spec_image_count :: "string option \<Rightarrow> nat" where
  "spec_image_count v =
     (case v of
        None \<Rightarrow> 0
      | Some s \<Rightarrow> length (filter (\<lambda>seg. trim seg \<noteq> []) (split_comma s)))"

text \<open>The spec's words for the cover image: the first segment, trimmed.\<close>

definition spec_cover :: "string \<Rightarrow> string" where
  "spec_cover s = (case split_comma s of [] \<Rightarrow> [] | seg # _ \<Rightarrow> trim seg)"

section \<open>The rendered tree\<close>

text \<open>
  What one \<open>CategoryCard\<close> shows: the category, the "Subcategory" badge, the item count,
  the image count, the image source, the number of subcategories, and the cards rendered
  beneath it.
\<close>

datatype card = Card
  (card_category: Category)
  (card_isSubcategory: bool)
  (card_itemCount: nat)
  (card_imageCount: nat)
  (card_cover: string)
  (card_subCount: nat)
  (card_children: "card list")

text \<open>
  \<open>CategoryCard\<close> calls itself for every subcategory of an expanded category. The first
  argument bounds the depth of the calls: \<open>None\<close> says that the bound was reached, so a
  rendering that never returns is \<open>None\<close> at every bound.
\<close>

fun CategoryCard ::
  "nat \<Rightarrow> JewelryItem list \<Rightarrow> Category list \<Rightarrow> string set \<Rightarrow> bool \<Rightarrow> Category \<Rightarrow> card option"
where
  "CategoryCard 0 items categories expandedCategories isSubcategory cat = None"
| "CategoryCard (Suc fuel) items categories expandedCategories isSubcategory cat =
     (let itemCount = getItemCount items (name cat);
          imageCount = getImageCount cat;
          subcategories = getSubcategories categories (cat_id cat);
          hasSubcategories = (length subcategories > 0);
          isExpanded = (cat_id cat \<in> expandedCategories)
      in if hasSubcategories \<and> isExpanded
         then map_option
                (Card cat isSubcategory itemCount imageCount (coverImage cat) (length subcategories))
                (those (map (CategoryCard fuel items categories expandedCategories True)
                          subcategories))
         else Some (Card cat isSubcategory itemCount imageCount (coverImage cat)
                      (length subcategories) []))"

text \<open>The list the component returns: one card for every top-level category.\<close>

definition renderTree ::
  "nat \<Rightarrow> JewelryItem list \<Rightarrow> Category list \<Rightarrow> string set \<Rightarrow> card list option"
where
  "renderTree fuel items categories expandedCategories =
     those (map (CategoryCard fuel items categories expandedCategories False)
              (topLevelCategories categories))"

text \<open>Every card of a rendering, each before the cards beneath it.\<close>

fun card_nodes :: "card \<Rightarrow> card list" where
  "card_nodes (Card cat isSub ic im cv sc kids) =
     Card cat isSub ic im cv sc kids # concat (map card_nodes kids)"

definition all_cards :: "card list \<Rightarrow> card list" where
  "all_cards forest = concat (map card_nodes forest)"

definition rendered_categories :: "card list \<Rightarrow> Category list" where
  "rendered_categories forest = map card_category (all_cards forest)"

fun card_depth :: "card \<Rightarrow> nat" where
  "card_depth (Card cat isSub ic im cv sc kids) = Suc (fold max (map card_depth kids) 0)"

text \<open>
  The links the tree walk follows, from a child to its parent: both are in the list and the
  child's \<open>parent_id\<close> is the parent's \<open>id\<close>.
\<close>

definition parent_links :: "Category list \<Rightarrow> (Category \<times> Category) set" where
  "parent_links categories =
     {(child, parent). child \<in> set categories \<and> parent \<in> set categories \<and>
        parent_id child = Some (cat_id parent)}"

text \<open>The categories of a card and of the cards beneath it, in the order they are shown.\<close>

fun card_categories :: "card \<Rightarrow> Category list" where
  "card_categories (Card cat isSub ic im cv sc kids) =
     cat # concat (map card_categories kids)"

text \<open>The subcategories a card shows beneath it: all of them when it is expanded, else none.\<close>

definition shown_subcategories :: "Category list \<Rightarrow> string set \<Rightarrow> Category \<Rightarrow> Category list" where
  "shown_subcategories cats expanded cat =
     (if cat_id cat \<in> expanded then getSubcategories cats (cat_id cat) else [])"

text \<open>The card of a subcategory that shows nothing beneath it.\<close>

definition child_card :: "JewelryItem list \<Rightarrow> Category list \<Rightarrow> Category \<Rightarrow> card" where
  "child_card items cats s =
     Card s True (getItemCount items (name s)) (getImageCount s) (coverImage s)
       (length (getSubcategories cats (cat_id s))) []"

text \<open>The card of a top-level category over such cards.\<close>

definition top_card :: "JewelryItem list \<Rightarrow> Category list \<Rightarrow> string set \<Rightarrow> Category \<Rightarrow> card" where
  "top_card items cats expanded t =
     Card t False (getItemCount items (name t)) (getImageCount t) (coverImage t)
       (length (getSubcategories cats (cat_id t)))
       (map (child_card items cats) (shown_subcategories cats expanded t))"

text \<open>What the tree presenter promises of a rendering \<open>forest\<close> of the list \<open>cats\<close>.\<close>

definition tree_shape :: "Category list \<Rightarrow> string set \<Rightarrow> card list \<Rightarrow> bool" where
  "tree_shape cats E forest \<longleftrightarrow>
     map card_category forest = topLevelCategories cats \<and>
     subseq (map card_category forest) cats \<and>
     (\<forall>top \<in> set forest.
        \<not> truthy (parent_id (card_category top)) \<and> \<not> card_isSubcategory top) \<and>
     (\<forall>node \<in> set (all_cards forest).
        map card_category (card_children node) =
          shown_subcategories cats E (card_category node) \<and>
        subseq (map card_category (card_children node)) cats \<and>
        (\<forall>kid \<in> set (card_children node).
           card_isSubcategory kid \<and>
           parent_id (card_category kid) = Some (cat_id (card_category node)) \<and>
           (\<forall>p \<in> set cats.
              parent_id (card_category kid) = Some (cat_id p) \<longrightarrow> p = card_category node))) \<and>
     distinct (rendered_categories forest)"

text \<open>The categories above a category along the parent links.\<close>

definition ancestors :: "Category list \<Rightarrow> Category \<Rightarrow> Category set" where
  "ancestors cats c = {p. (c, p) \<in> (parent_links cats)\<^sup>+}"

text \<open>A category linked, in any number of steps, to a top-level category.\<close>

definition rooted :: "Category list \<Rightarrow> Category \<Rightarrow> bool" where
  "rooted cats c \<longleftrightarrow>
     (\<exists>t \<in> set cats. \<not> truthy (parent_id t) \<and> (c, t) \<in> (parent_links cats)\<^sup>*)"

section \<open>The component's state and its handlers\<close>

record CategoryFormData =
  form_name :: string
  form_description :: string
  form_image_url :: string
  form_parent_id :: string

text \<open>The record sent to the backend: the form's fields, \<open>parent_id\<close> a string or \<open>null\<close>.\<close>

record SubmitData =
  sd_name :: string
  sd_description :: string
  sd_image_url :: string
  sd_parent_id :: "string option"

record AdminState =
  categories :: "Category list"
  showAddCategoryForm :: bool
  editingCategory :: "Category option"
  expandedCategories :: "string set"
  categoryFormData :: CategoryFormData

text \<open>What a handler does to the world outside the state, in the order it does it.\<close>

datatype effect =
    RemoteSelect
  | RemoteInsert SubmitData
  | RemoteUpdate SubmitData string
  | RemoteDelete string
  | OnCategoriesChange
  | ConfirmDialog string
  | Alert string
  | ConsoleError string

text \<open>
  The answers of the backend: a mutation returns an error (thrown at once) or none; the
  select returns rows, no rows (\<open>data\<close> is \<open>null\<close>), or throws. With rows, the callback
  \<open>onCategoriesChange\<close> returns or throws.
\<close>

datatype remote_outcome = RemoteOk | RemoteError

datatype load_outcome =
    LoadData "Category list"
  | LoadDataCallbackThrows "Category list"
  | LoadNoData
  | LoadThrows

definition emptyForm :: CategoryFormData where
  "emptyForm = \<lparr>form_name = [], form_description = [], form_image_url = [],
                 form_parent_id = []\<rparr>"

definition initialState :: AdminState where
  "initialState = \<lparr>categories = [], showAddCategoryForm = False, editingCategory = None,
                    expandedCategories = {}, categoryFormData = emptyForm\<rparr>"

definition loadCategories :: "load_outcome \<Rightarrow> AdminState \<Rightarrow> AdminState \<times> effect list" where
  "loadCategories outcome st =
     (case outcome of
        LoadData rows \<Rightarrow> (st\<lparr>categories := rows\<rparr>, [RemoteSelect, OnCategoriesChange])
      | LoadDataCallbackThrows rows \<Rightarrow>
          (st\<lparr>categories := rows\<rparr>,
           [RemoteSelect, OnCategoriesChange, ConsoleError ''Error loading categories:''])
      | LoadNoData \<Rightarrow> (st, [RemoteSelect])
      | LoadThrows \<Rightarrow> (st, [RemoteSelect, ConsoleError ''Error loading categories:'']))"

definition resetCategoryForm :: "AdminState \<Rightarrow> AdminState" where
  "resetCategoryForm st =
     st\<lparr>categoryFormData := emptyForm, showAddCategoryForm := False, editingCategory := None\<rparr>"

definition or_empty :: "string option \<Rightarrow> string" where
  "or_empty v = (case v of None \<Rightarrow> [] | Some s \<Rightarrow> s)"

definition startEditCategory :: "Category \<Rightarrow> AdminState \<Rightarrow> AdminState" where
  "startEditCategory cat st =
     st\<lparr>editingCategory := Some cat,
        categoryFormData :=
          \<lparr>form_name = name cat, form_description = or_empty (description cat),
           form_image_url = or_empty (image_url cat), form_parent_id = or_empty (parent_id cat)\<rparr>,
        showAddCategoryForm := True\<rparr>"

definition toggleExpanded :: "string \<Rightarrow> AdminState \<Rightarrow> AdminState" where
  "toggleExpanded categoryId st =
     (if categoryId \<in> expandedCategories st
      then st\<lparr>expandedCategories := expandedCategories st - {categoryId}\<rparr>
      else st\<lparr>expandedCategories := insert categoryId (expandedCategories st)\<rparr>)"

text \<open>\<open>{ ...categoryFormData, parent_id: categoryFormData.parent_id || null }\<close>\<close>

definition submitData :: "CategoryFormData \<Rightarrow> SubmitData" where
  "submitData form =
     \<lparr>sd_name = form_name form, sd_description = form_description form,
      sd_image_url = form_image_url form,
      sd_parent_id = (if form_parent_id form \<noteq> [] then Some (form_parent_id form) else None)\<rparr>"

definition saveFailedMessage :: string where
  "saveFailedMessage = ''Error saving category. Please check your permissions and try again.''"

definition handleCategorySubmit ::
  "remote_outcome \<Rightarrow> load_outcome \<Rightarrow> AdminState \<Rightarrow> AdminState \<times> effect list"
where
  "handleCategorySubmit remote load st =
     (let request =
            (case editingCategory st of
               Some editing \<Rightarrow> RemoteUpdate (submitData (categoryFormData st)) (cat_id editing)
             | None \<Rightarrow> RemoteInsert (submitData (categoryFormData st)))
      in case remote of
           RemoteError \<Rightarrow>
             (st, [request, ConsoleError ''Error saving category:'', Alert saveFailedMessage])
         | RemoteOk \<Rightarrow>
             (let (st', effects) = loadCategories load st
              in (resetCategoryForm st', request # effects)))"

text \<open>A count as a template literal prints it: in decimal.\<close>

function show_nat :: "nat \<Rightarrow> string" where
  "show_nat n =
     (if n < 10 then [''0123456789'' ! n]
      else show_nat (n div 10) @ [''0123456789'' ! (n mod 10)])"
  by pat_completeness auto
termination
  by (relation "measure (\<lambda>n. n)") auto

declare show_nat.simps [simp del]

text \<open>Reading a decimal numeral back, to say what number a message cites.\<close>

definition digits_value :: "string \<Rightarrow> nat" where
  "digits_value ds = foldl (\<lambda>acc d. 10 * acc + (of_char d - 48)) 0 ds"

definition quoted :: "string \<Rightarrow> string" where
  "quoted s = [CHR 0x22] @ s @ [CHR 0x22]"

definition itemsMessage :: "string \<Rightarrow> nat \<Rightarrow> string" where
  "itemsMessage categoryName itemCount =
     ''Cannot delete category '' @ quoted categoryName @ '' because it contains '' @
     show_nat itemCount @ '' items. Please move or delete the items first.''"

definition subcategoriesMessage :: "string \<Rightarrow> nat \<Rightarrow> string" where
  "subcategoriesMessage categoryName n =
     ''Cannot delete category '' @ quoted categoryName @ '' because it has '' @
     show_nat n @ '' subcategories. Please delete the subcategories first.''"

definition confirmMessage :: "string \<Rightarrow> string" where
  "confirmMessage categoryName =
     ''Are you sure you want to delete the category '' @ quoted categoryName @ ''?''"

definition deleteFailedMessage :: string where
  "deleteFailedMessage = ''Error deleting category. Please check your permissions and try again.''"

text \<open>
  \<open>handleDeleteCategory\<close>: \<open>confirm\<close> is the user's answer to the dialog, \<open>remote\<close> and \<open>load\<close>
  the backend's answers to the delete and to the reload.
\<close>

definition handleDeleteCategory ::
  "JewelryItem list \<Rightarrow> (string \<Rightarrow> bool) \<Rightarrow> remote_outcome \<Rightarrow> load_outcome \<Rightarrow>
   string \<Rightarrow> string \<Rightarrow> AdminState \<Rightarrow> AdminState \<times> effect list"
where
  "handleDeleteCategory items confirm remote load catId categoryName st =
     (let itemCount = length (filter (\<lambda>item. category item = categoryName) items);
          subcategories = filter (\<lambda>cat. parent_id cat = Some catId) (categories st)
      in if itemCount > 0 then (st, [Alert (itemsMessage categoryName itemCount)])
         else if length subcategories > 0
         then (st, [Alert (subcategoriesMessage categoryName (length subcategories))])
         else if confirm (confirmMessage categoryName)
         then (case remote of
                 RemoteError \<Rightarrow>
                   (st, [ConfirmDialog (confirmMessage categoryName), RemoteDelete catId,
                         ConsoleError ''Error deleting category:'', Alert deleteFailedMessage])
               | RemoteOk \<Rightarrow>
                   (let (st', effects) = loadCategories load st
                    in (st', [ConfirmDialog (confirmMessage categoryName), RemoteDelete catId]
                              @ effects)))
         else (st, [ConfirmDialog (confirmMessage categoryName)]))"

text \<open>What a trace shows to the user, and what it asks of the backend.\<close>

definition alerts :: "effect list \<Rightarrow> string list" where
  "alerts effects = concat (map (\<lambda>e. case e of Alert m \<Rightarrow> [m] | _ \<Rightarrow> []) effects)"

definition remote_deletes :: "effect list \<Rightarrow> string list" where
  "remote_deletes effects =
     concat (map (\<lambda>e. case e of RemoteDelete i \<Rightarrow> [i] | _ \<Rightarrow> []) effects)"

definition is_remote :: "effect \<Rightarrow> bool" where
  "is_remote e =
     (case e of RemoteSelect \<Rightarrow> True | RemoteInsert _ \<Rightarrow> True | RemoteUpdate _ _ \<Rightarrow> True
      | RemoteDelete _ \<Rightarrow> True | _ \<Rightarrow> False)"

definition sent_records :: "effect list \<Rightarrow> SubmitData list" where
  "sent_records effects =
     concat (map (\<lambda>e. case e of RemoteInsert d \<Rightarrow> [d] | RemoteUpdate d _ \<Rightarrow> [d] | _ \<Rightarrow> [])
               effects)"

section \<open>The gold price poller\<close>

text \<open>
  The hook's three state cells, the effect's variable \<open>mounted\<close>, whether the interval
  set by \<open>setInterval\<close> is still running, and what was written to the console.
\<close>

record PollerState =
  goldPrice :: real
  loading :: bool
  error :: "string option"
  mounted :: bool
  intervalActive :: bool
  consoleLog :: "string list"

text \<open>How \<open>await getCurrentGoldPrice()\<close> ends: with a price, or by throwing.\<close>

datatype fetch_outcome = Resolved real | Rejected

text \<open>The three \<open>useState\<close> calls, before the effect runs.\<close>

definition useGoldPrice_initial :: PollerState where
  "useGoldPrice_initial =
     \<lparr>goldPrice = 5450, loading = True, error = None, mounted = False,
      intervalActive = False, consoleLog = []\<rparr>"

text \<open>\<open>fetchGoldPrice\<close> up to its \<open>await\<close>: \<open>setLoading(true); setError(null)\<close>.\<close>

definition fetch_begin :: "PollerState \<Rightarrow> PollerState" where
  "fetch_begin s = s\<lparr>loading := True, error := None\<rparr>"

text \<open>\<open>fetchGoldPrice\<close> after its \<open>await\<close>: the \<open>try\<close>'s last line or the \<open>catch\<close>, then \<open>finally\<close>.\<close>

definition fetch_end :: "fetch_outcome \<Rightarrow> PollerState \<Rightarrow> PollerState" where
  "fetch_end outcome s =
     (let s1 =
            (case outcome of
               Resolved price \<Rightarrow> if mounted s then s\<lparr>goldPrice := price\<rparr> else s
             | Rejected \<Rightarrow>
                 if mounted s
                 then s\<lparr>error := Some ''Failed to fetch gold price'',
                        consoleLog := consoleLog s @ [''Gold price fetch error:'']\<rparr>
                 else s)
      in if mounted s1 then s1\<lparr>loading := False\<rparr> else s1)"

text \<open>The effect: \<open>mounted = true\<close>, the first fetch starts, the interval is set.\<close>

definition mount :: "PollerState \<Rightarrow> PollerState" where
  "mount s = (fetch_begin (s\<lparr>mounted := True\<rparr>))\<lparr>intervalActive := True\<rparr>"

text \<open>The interval's callback starts a fetch, as long as the interval is not cleared.\<close>

definition interval_tick :: "PollerState \<Rightarrow> PollerState" where
  "interval_tick s = (if intervalActive s then fetch_begin s else s)"

text \<open>The effect's cleanup: \<open>mounted = false; clearInterval(interval)\<close>.\<close>

definition unmount :: "PollerState \<Rightarrow> PollerState" where
  "unmount s = s\<lparr>mounted := False, intervalActive := False\<rparr>"

text \<open>A whole fetch, when nothing happens between its two halves.\<close>

definition fetchGoldPrice :: "fetch_outcome \<Rightarrow> PollerState \<Rightarrow> PollerState" where
  "fetchGoldPrice outcome s = fetch_end outcome (fetch_begin s)"

section \<open>The access policies of the migration\<close>





















section \<open>Concrete inputs\<close>

definition rings_items :: "JewelryItem list" where
  "rings_items =
     map (\<lambda>c. \<lparr>category = c\<rparr>)
       [''Rings'', ''rings'', ''Rings'', ''Rings '', ''Necklaces'', ''Rings'', '' Rings'',
        ''RINGS'', ''Bangles'', ''Earrings'']"


definition gallery_cat :: Category where
  "gallery_cat = \<lparr>cat_id = ''c2'', name = ''Bangles'', description = None,
     image_url = Some ''a.jpg, b.jpg,  c.jpg'', parent_id = None\<rparr>"

definition blank_first_cat :: Category where
  "blank_first_cat = \<lparr>cat_id = ''c3'', name = ''Chains'', description = None,
     image_url = Some '',b.jpg'', parent_id = None\<rparr>"

definition sample_form :: CategoryFormData where
  "sample_form = \<lparr>form_name = ''Heavy Rings'', form_description = ''Thick bands'',
     form_image_url = ''a.jpg'', form_parent_id = []\<rparr>"

definition sample_parent :: Category where
  "sample_parent = \<lparr>cat_id = ''p1'', name = ''Rings'', description = None, image_url = None,
     parent_id = None\<rparr>"

definition two_rings :: "JewelryItem list" where
  "two_rings = [\<lparr>category = ''Rings''\<rparr>, \<lparr>category = ''Chains''\<rparr>, \<lparr>category = ''Rings''\<rparr>]"

definition light_rings :: Category where
  "light_rings = \<lparr>cat_id = ''s1'', name = ''Light Rings'', description = None,
     image_url = None, parent_id = Some ''p1''\<rparr>"

definition shop_state :: AdminState where
  "shop_state = initialState\<lparr>categories := [sample_parent, light_rings]\<rparr>"

definition editing_state :: AdminState where
  "editing_state =
     startEditCategory light_rings (initialState\<lparr>categories := [sample_parent, light_rings]\<rparr>)"


definition mk_category :: "string \<Rightarrow> string \<Rightarrow> string option \<Rightarrow> Category" where
  "mk_category i n p =
     \<lparr>cat_id = i, name = n, description = None, image_url = None, parent_id = p\<rparr>"

text \<open>A leaf card of a category without items, images or subcategories.\<close>

definition leaf :: "Category \<Rightarrow> bool \<Rightarrow> card" where
  "leaf cat isSub = Card cat isSub 0 0 fallbackImage 0 []"

text \<open>Three tiers: the parent of \<open>Heavy Gold Rings\<close> is itself a subcategory.\<close>

definition three_tiers :: "Category list" where
  "three_tiers =
     [mk_category ''a'' ''Rings'' None,
      mk_category ''b'' ''Gold Rings'' (Some ''a''),
      mk_category ''c'' ''Heavy Gold Rings'' (Some ''b'')]"

text \<open>Distinct ids, one of them the empty string.\<close>

definition empty_id_list :: "Category list" where
  "empty_id_list =
     [mk_category ''a'' ''Anklets'' (Some []),
      mk_category [] ''Brooches'' (Some ''b''),
      mk_category ''b'' ''Chains'' None]"

text \<open>One category, its own parent through the empty string.\<close>

definition self_parent :: "Category list" where
  "self_parent = [mk_category [] ''Rings'' (Some [])]"

text \<open>A list with parent cycles: two categories that are each other's parent, and one that
  is its own.\<close>

definition looped :: "Category list" where
  "looped =
     [mk_category ''a'' ''Anklets'' None,
      mk_category ''x'' ''Bangles'' (Some ''y''),
      mk_category ''y'' ''Chains'' (Some ''x''),
      mk_category ''s'' ''Studs'' (Some ''s''),
      mk_category ''k'' ''Toe Rings'' (Some ''a'')]"

text \<open>A two-tier catalogue, sorted by name.\<close>

definition catalogue :: "Category list" where
  "catalogue =
     [mk_category ''b0'' ''Bangles'' None,
      mk_category ''r1'' ''Gold Rings'' (Some ''r0''),
      mk_category ''r0'' ''Rings'' None,
      mk_category ''r2'' ''Silver Rings'' (Some ''r0'')]"

text \<open>Its rendering with \<open>rings_items\<close>, \<open>Rings\<close> expanded.\<close>

definition catalogue_forest :: "card list" where
  "catalogue_forest =
     [Card (mk_category ''b0'' ''Bangles'' None) False 1 0 fallbackImage 0 [],
      Card (mk_category ''r0'' ''Rings'' None) False 3 0 fallbackImage 2
        [leaf (mk_category ''r1'' ''Gold Rings'' (Some ''r0'')) True,
         leaf (mk_category ''r2'' ''Silver Rings'' (Some ''r0'')) True]]"


section \<open>Strings: facts\<close>

lemma split_comma_not_Nil: "split_comma s \<noteq> []"
  by (induction s) (auto split: list.splits)

lemma trim_Nil: "trim [] = []"
  by (simp add: trim_def)

lemma split_comma_no_comma: "seg \<in> set (split_comma s) \<Longrightarrow> CHR '','' \<notin> set seg"
proof (induction s arbitrary: seg)
  case Nil
  then show ?case by simp
next
  case (Cons c cs)
  show ?case
  proof (cases "c = CHR '',''")
    case True
    with Cons show ?thesis by auto
  next
    case False
    obtain x xs where r: "split_comma cs = x # xs"
      using split_comma_not_Nil [of cs] by (cases "split_comma cs") auto
    with Cons False show ?thesis by auto
  qed
qed

section \<open>Item counts\<close>



section \<open>Image counts and the cover image\<close>

lemma getImageCount_spec: "getImageCount cat = spec_image_count (image_url cat)"
  by (auto simp: getImageCount_def spec_image_count_def trim_Nil filter_map o_def
      split: option.splits)

lemma coverImage_spec:
  "image_url cat = Some s \<Longrightarrow>
     coverImage cat = (if spec_cover s = [] then fallbackImage else spec_cover s)"
  by (auto simp: coverImage_def spec_cover_def split: list.splits)

text \<open>
  C6, as amended. The image count of a category is the number of comma-separated segments
  of \<open>image_url\<close> that are non-empty once trimmed, and 0 when \<open>image_url\<close> is absent or
  empty; the cover image is the trimmed first segment when that is non-empty, and the fixed
  fallback image otherwise.
\<close>

theorem image_count_and_cover:
  "getImageCount cat = spec_image_count (image_url cat) \<and>
   (\<not> truthy (image_url cat) \<longrightarrow> getImageCount cat = 0) \<and>
   (image_url cat = None \<longrightarrow> coverImage cat = fallbackImage) \<and>
   (image_url cat = Some s \<longrightarrow>
      coverImage cat = (if spec_cover s = [] then fallbackImage else spec_cover s))"
proof -
  have "getImageCount cat = 0" if "\<not> truthy (image_url cat)"
    using that by (auto simp: truthy_def getImageCount_def split: option.splits)
  moreover have "coverImage cat = fallbackImage" if "image_url cat = None"
    using that by (simp add: coverImage_def)
  ultimately show ?thesis
    using getImageCount_spec [of cat] coverImage_spec [of cat s] by blast
qed

theorem image_count_and_cover_witness:
  "spec_image_count (Some ''a.jpg, b.jpg,  c.jpg'') = 3 \<and>
   getImageCount gallery_cat = 3 \<and>
   coverImage gallery_cat = ''a.jpg'' \<and>
   spec_cover ''a.jpg, b.jpg,  c.jpg'' = ''a.jpg'' \<and>
   getImageCount (gallery_cat\<lparr>image_url := Some []\<rparr>) = 0 \<and>
   getImageCount (gallery_cat\<lparr>image_url := None\<rparr>) = 0 \<and>
   coverImage (gallery_cat\<lparr>image_url := None\<rparr>) = fallbackImage"
proof -
  have n: "getImageCount gallery_cat = 3"
    by (simp add: gallery_cat_def getImageCount_def trim_def is_space_def)
  have c: "spec_cover ''a.jpg, b.jpg,  c.jpg'' = ''a.jpg''"
    by (simp add: spec_cover_def trim_def is_space_def)
  have f: "fallbackImage \<noteq> []"
    by (simp add: fallbackImage_def)
  show ?thesis
    using image_count_and_cover [of gallery_cat "''a.jpg, b.jpg,  c.jpg''"]
      image_count_and_cover [of "gallery_cat\<lparr>image_url := Some []\<rparr>" "[]"]
      image_count_and_cover [of "gallery_cat\<lparr>image_url := None\<rparr>" "[]"] n c
    by (simp add: gallery_cat_def truthy_def)
qed

text \<open>
  The claim as first stated fails where the first segment is blank: the card shows the
  fallback image, not the (empty) trimmed first segment.
\<close>

theorem cover_is_first_segment_counterexample:
  "spec_cover '',b.jpg'' = [] \<and>
   coverImage blank_first_cat = fallbackImage \<and>
   coverImage blank_first_cat \<noteq> spec_cover '',b.jpg'' \<and>
   getImageCount blank_first_cat = 1"
  by (simp add: blank_first_cat_def coverImage_def spec_cover_def getImageCount_def trim_def
      is_space_def fallbackImage_def)

section \<open>Submitting the form\<close>

text \<open>
  C5. Every submission, create or edit, sends one record; its \<open>parent_id\<close> is absent when
  the form's \<open>parent_id\<close> is the empty string and is the form's \<open>parent_id\<close> otherwise; the
  other fields are the form's.
\<close>

theorem parent_id_normalized:
  "sent_records (snd (handleCategorySubmit remote load st)) = [submitData (categoryFormData st)] \<and>
   (\<exists>rest. snd (handleCategorySubmit remote load st) =
      (case editingCategory st of
         None \<Rightarrow> RemoteInsert (submitData (categoryFormData st))
       | Some editing \<Rightarrow> RemoteUpdate (submitData (categoryFormData st)) (cat_id editing)) # rest) \<and>
   sd_parent_id (submitData form) =
     (if form_parent_id form = [] then None else Some (form_parent_id form)) \<and>
   sd_name (submitData form) = form_name form \<and>
   sd_description (submitData form) = form_description form \<and>
   sd_image_url (submitData form) = form_image_url form"
proof -
  have s: "sent_records (snd (loadCategories load st)) = []"
    by (cases load) (simp_all add: loadCategories_def sent_records_def)
  have 1: "sent_records (snd (handleCategorySubmit remote load st)) =
      [submitData (categoryFormData st)]"
    using s
    by (cases remote; cases "editingCategory st"; cases "loadCategories load st")
      (simp_all add: handleCategorySubmit_def sent_records_def)
  have 2: "\<exists>rest. snd (handleCategorySubmit remote load st) =
      (case editingCategory st of
         None \<Rightarrow> RemoteInsert (submitData (categoryFormData st))
       | Some editing \<Rightarrow> RemoteUpdate (submitData (categoryFormData st)) (cat_id editing)) # rest"
    by (cases remote; cases "editingCategory st"; cases "loadCategories load st")
      (simp_all add: handleCategorySubmit_def)
  show ?thesis
    using 1 2 by (simp add: submitData_def)
qed

theorem parent_id_normalized_witness:
  "sent_records (snd (handleCategorySubmit RemoteOk LoadNoData
      (initialState\<lparr>categoryFormData := sample_form\<rparr>))) =
     [\<lparr>sd_name = ''Heavy Rings'', sd_description = ''Thick bands'', sd_image_url = ''a.jpg'',
       sd_parent_id = None\<rparr>] \<and>
   snd (handleCategorySubmit RemoteError LoadNoData editing_state) =
     [RemoteUpdate \<lparr>sd_name = ''Light Rings'', sd_description = [], sd_image_url = [],
        sd_parent_id = Some ''p1''\<rparr> ''s1'',
      ConsoleError ''Error saving category:'', Alert saveFailedMessage] \<and>
   sd_parent_id (submitData (sample_form\<lparr>form_parent_id := ''p1''\<rparr>)) = Some ''p1''"
  using parent_id_normalized [of RemoteOk LoadNoData
      "initialState\<lparr>categoryFormData := sample_form\<rparr>" "sample_form\<lparr>form_parent_id := ''p1''\<rparr>"]
    parent_id_normalized [of RemoteError LoadNoData editing_state sample_form]
  by (simp add: initialState_def sample_form_def submitData_def editing_state_def
      startEditCategory_def light_rings_def or_empty_def handleCategorySubmit_def)

section \<open>The delete guard\<close>

lemma digit_char: "d < 10 \<Longrightarrow> of_char (''0123456789'' ! d) = 48 + d"
proof -
  assume "d < 10"
  then have "d \<in> {0, 1, 2, 3, 4, 5, 6, 7, 8, 9}" by auto
  then show ?thesis by auto
qed

lemma show_nat_value: "digits_value (show_nat n) = n"
proof (induction n rule: show_nat.induct)
  case (1 n)
  show ?case
  proof (cases "n < 10")
    case True
    then show ?thesis
      by (subst show_nat.simps) (simp add: digits_value_def digit_char del: nth_Cons_numeral)
  next
    case False
    with 1 have ih: "digits_value (show_nat (n div 10)) = n div 10" by simp
    have m: "n mod 10 < 10" by simp
    have "digits_value (show_nat n) =
        10 * digits_value (show_nat (n div 10)) + (of_char (''0123456789'' ! (n mod 10)) - 48)"
      using False by (subst show_nat.simps) (simp add: digits_value_def)
    also have "\<dots> = 10 * (n div 10) + n mod 10"
      using ih digit_char [OF m] by simp
    finally show ?thesis by simp
  qed
qed

lemma loadCategories_no_delete: "remote_deletes (snd (loadCategories load st)) = []"
  by (cases load) (simp_all add: loadCategories_def remote_deletes_def)

lemma delete_blocked_by_items:
  "0 < getItemCount items nm \<Longrightarrow>
     handleDeleteCategory items confirm remote load catId nm st =
       (st, [Alert (itemsMessage nm (getItemCount items nm))])"
  by (simp add: handleDeleteCategory_def getItemCount_def Let_def)

lemma delete_blocked_by_subcategories:
  "getItemCount items nm = 0 \<Longrightarrow> 0 < length (getSubcategories (categories st) catId) \<Longrightarrow>
     handleDeleteCategory items confirm remote load catId nm st =
       (st, [Alert (subcategoriesMessage nm (length (getSubcategories (categories st) catId)))])"
  by (simp add: handleDeleteCategory_def getItemCount_def getSubcategories_def Let_def)

lemma delete_declined:
  "getItemCount items nm = 0 \<Longrightarrow> getSubcategories (categories st) catId = [] \<Longrightarrow>
   \<not> confirm (confirmMessage nm) \<Longrightarrow>
     handleDeleteCategory items confirm remote load catId nm st =
       (st, [ConfirmDialog (confirmMessage nm)])"
  by (simp add: handleDeleteCategory_def getItemCount_def getSubcategories_def Let_def)

lemma delete_confirmed:
  "getItemCount items nm = 0 \<Longrightarrow> getSubcategories (categories st) catId = [] \<Longrightarrow>
   confirm (confirmMessage nm) \<Longrightarrow>
     \<exists>rest. snd (handleDeleteCategory items confirm remote load catId nm st) =
       ConfirmDialog (confirmMessage nm) # RemoteDelete catId # rest \<and>
       remote_deletes rest = []"
  using loadCategories_no_delete [of load st]
  by (cases remote; cases "loadCategories load st")
    (simp_all add: handleDeleteCategory_def getItemCount_def getSubcategories_def Let_def
      remote_deletes_def)

text \<open>
  C3. A delete request for a category with items is answered by one alert citing the number
  of items, and nothing is sent; otherwise, with subcategories, by one alert citing their
  number, and nothing is sent; otherwise the user is asked, and the delete is sent exactly
  when the user confirms. The number in a message is the count, printed in decimal.
\<close>

theorem delete_guard:
  "(0 < getItemCount items nm \<longrightarrow>
      handleDeleteCategory items confirm remote load catId nm st =
        (st, [Alert (itemsMessage nm (getItemCount items nm))])) \<and>
   (getItemCount items nm = 0 \<and> 0 < length (getSubcategories (categories st) catId) \<longrightarrow>
      handleDeleteCategory items confirm remote load catId nm st =
        (st, [Alert (subcategoriesMessage nm (length (getSubcategories (categories st) catId)))])) \<and>
   (getItemCount items nm = 0 \<and> getSubcategories (categories st) catId = [] \<and>
    \<not> confirm (confirmMessage nm) \<longrightarrow>
      handleDeleteCategory items confirm remote load catId nm st =
        (st, [ConfirmDialog (confirmMessage nm)])) \<and>
   (getItemCount items nm = 0 \<and> getSubcategories (categories st) catId = [] \<and>
    confirm (confirmMessage nm) \<longrightarrow>
      (\<exists>rest. snd (handleDeleteCategory items confirm remote load catId nm st) =
         ConfirmDialog (confirmMessage nm) # RemoteDelete catId # rest \<and>
         remote_deletes rest = [])) \<and>
   itemsMessage nm n =
     ''Cannot delete category '' @ quoted nm @ '' because it contains '' @ show_nat n @
     '' items. Please move or delete the items first.'' \<and>
   subcategoriesMessage nm n =
     ''Cannot delete category '' @ quoted nm @ '' because it has '' @ show_nat n @
     '' subcategories. Please delete the subcategories first.'' \<and>
   digits_value (show_nat n) = n"
  using delete_blocked_by_items [of items nm confirm remote load catId st]
    delete_blocked_by_subcategories [of items nm st catId confirm remote load]
    delete_declined [of items nm st catId confirm remote load]
    delete_confirmed [of items nm st catId confirm remote load]
    show_nat_value [of n]
  by (simp add: itemsMessage_def subcategoriesMessage_def)

theorem delete_guard_witness:
  "handleDeleteCategory two_rings (\<lambda>m. True) RemoteOk LoadNoData ''p9'' ''Rings'' shop_state =
     (shop_state, [Alert (''Cannot delete category '' @ quoted ''Rings'' @
        '' because it contains 2 items. Please move or delete the items first.'')]) \<and>
   handleDeleteCategory two_rings (\<lambda>m. True) RemoteOk LoadNoData ''p1'' ''Bangles'' shop_state =
     (shop_state, [Alert (''Cannot delete category '' @ quoted ''Bangles'' @
        '' because it has 1 subcategories. Please delete the subcategories first.'')]) \<and>
   handleDeleteCategory two_rings (\<lambda>m. False) RemoteOk LoadNoData ''s1'' ''Light Rings''
       shop_state =
     (shop_state, [ConfirmDialog (confirmMessage ''Light Rings'')]) \<and>
   (\<exists>rest. snd (handleDeleteCategory two_rings (\<lambda>m. True) RemoteOk LoadNoData ''s1''
       ''Light Rings'' shop_state) =
      ConfirmDialog (confirmMessage ''Light Rings'') # RemoteDelete ''s1'' # rest \<and>
      remote_deletes rest = [])"
proof -
  have i2: "getItemCount two_rings ''Rings'' = 2"
    and i0: "getItemCount two_rings ''Bangles'' = 0" "getItemCount two_rings ''Light Rings'' = 0"
    by (simp_all add: two_rings_def getItemCount_def)
  have s1: "getSubcategories (categories shop_state) ''p1'' = [light_rings]"
    and s0: "getSubcategories (categories shop_state) ''s1'' = []"
    by (simp_all add: shop_state_def initialState_def getSubcategories_def sample_parent_def
        light_rings_def)
  have n2: "show_nat 2 = ''2''" and n1: "show_nat (Suc 0) = ''1''"
    by (simp_all add: show_nat.simps)
  show ?thesis
    using delete_guard [of two_rings "''Rings''" "\<lambda>m. True" RemoteOk LoadNoData "''p9''"
        shop_state 2]
      delete_guard [of two_rings "''Bangles''" "\<lambda>m. True" RemoteOk LoadNoData "''p1''"
        shop_state 1]
      delete_guard [of two_rings "''Light Rings''" "\<lambda>m. False" RemoteOk LoadNoData "''s1''"
        shop_state 0]
      delete_guard [of two_rings "''Light Rings''" "\<lambda>m. True" RemoteOk LoadNoData "''s1''"
        shop_state 0]
    by (simp add: i2 i0 s1 s0 n2 n1)
qed

section \<open>The outcome of a submission\<close>

lemma loadCategories_effects:
  "\<exists>rest. snd (loadCategories load st) = RemoteSelect # rest \<and> alerts rest = []"
  by (cases load) (simp_all add: loadCategories_def alerts_def)

lemma loadCategories_state:
  "fst (loadCategories load st) =
     st\<lparr>categories := (case load of
        LoadData rows \<Rightarrow> rows
      | LoadDataCallbackThrows rows \<Rightarrow> rows
      | _ \<Rightarrow> categories st)\<rparr>"
  by (cases load) (simp_all add: loadCategories_def)

lemma submit_failed:
  "fst (handleCategorySubmit RemoteError load st) = st \<and>
   alerts (snd (handleCategorySubmit RemoteError load st)) = [saveFailedMessage] \<and>
   RemoteSelect \<notin> set (snd (handleCategorySubmit RemoteError load st))"
  by (cases "editingCategory st") (simp_all add: handleCategorySubmit_def alerts_def)

lemma submit_succeeded_state:
  "fst (handleCategorySubmit RemoteOk load st) = resetCategoryForm (fst (loadCategories load st))"
  by (cases "loadCategories load st") (simp add: handleCategorySubmit_def)

lemma submit_succeeded_effects:
  "\<exists>request rest. snd (handleCategorySubmit RemoteOk load st) = request # RemoteSelect # rest \<and>
     sent_records [request] = [submitData (categoryFormData st)] \<and> alerts rest = []"
proof -
  obtain rest where r: "snd (loadCategories load st) = RemoteSelect # rest" "alerts rest = []"
    using loadCategories_effects by blast
  then show ?thesis
    by (cases "editingCategory st"; cases "loadCategories load st")
      (simp_all add: handleCategorySubmit_def sent_records_def)
qed

text \<open>
  C8. When the remote call of a submission fails, the user is alerted and the state is as
  it was: the form is still shown, its fields and the editing selection are unchanged, and
  nothing is reloaded. When it succeeds, the category list is selected again after the
  call, and the form is then closed, emptied and no longer editing; the rows the select
  returns replace the list.
\<close>

theorem submit_outcome:
  "fst (handleCategorySubmit RemoteError load st) = st \<and>
   showAddCategoryForm (fst (handleCategorySubmit RemoteError load st)) = showAddCategoryForm st \<and>
   categoryFormData (fst (handleCategorySubmit RemoteError load st)) = categoryFormData st \<and>
   editingCategory (fst (handleCategorySubmit RemoteError load st)) = editingCategory st \<and>
   alerts (snd (handleCategorySubmit RemoteError load st)) = [saveFailedMessage] \<and>
   RemoteSelect \<notin> set (snd (handleCategorySubmit RemoteError load st)) \<and>
   fst (handleCategorySubmit RemoteOk load st) = resetCategoryForm (fst (loadCategories load st)) \<and>
   (\<exists>request rest. snd (handleCategorySubmit RemoteOk load st) = request # RemoteSelect # rest \<and>
      sent_records [request] = [submitData (categoryFormData st)] \<and> alerts rest = []) \<and>
   showAddCategoryForm (fst (handleCategorySubmit RemoteOk load st)) = False \<and>
   categoryFormData (fst (handleCategorySubmit RemoteOk load st)) = emptyForm \<and>
   editingCategory (fst (handleCategorySubmit RemoteOk load st)) = None \<and>
   categories (fst (handleCategorySubmit RemoteOk load st)) =
     (case load of
        LoadData rows \<Rightarrow> rows
      | LoadDataCallbackThrows rows \<Rightarrow> rows
      | _ \<Rightarrow> categories st)"
  using submit_failed [of load st] submit_succeeded_effects [of load st]
  by (simp add: submit_succeeded_state loadCategories_state resetCategoryForm_def)

theorem submit_outcome_witness:
  "handleCategorySubmit RemoteError (LoadData [sample_parent]) editing_state =
     (editing_state,
      [RemoteUpdate (submitData (categoryFormData editing_state)) ''s1'',
       ConsoleError ''Error saving category:'', Alert saveFailedMessage]) \<and>
   showAddCategoryForm editing_state \<and>
   editingCategory editing_state = Some light_rings \<and>
   form_parent_id (categoryFormData editing_state) = ''p1'' \<and>
   fst (handleCategorySubmit RemoteOk (LoadData [sample_parent]) editing_state) =
     initialState\<lparr>categories := [sample_parent]\<rparr> \<and>
   snd (handleCategorySubmit RemoteOk (LoadData [sample_parent]) editing_state) =
     [RemoteUpdate (submitData (categoryFormData editing_state)) ''s1'', RemoteSelect,
      OnCategoriesChange]"
  using submit_outcome [of "LoadData [sample_parent]" editing_state]
  by (simp add: editing_state_def startEditCategory_def initialState_def light_rings_def
      or_empty_def handleCategorySubmit_def loadCategories_def resetCategoryForm_def)

section \<open>The gold price poller\<close>

text \<open>
  C4, as amended. A fetch clears the error as it starts and leaves the price and the
  interval as they are. A fetch that ends after the hook was unmounted changes nothing.
  A fetch that fails leaves the price as it was and the interval running, and sets the
  error when the hook is still mounted as the fetch ends. A fetch that succeeds leaves the
  error as its start cleared it, and sets the price to the fetched value when the hook is
  still mounted as the fetch ends. The price starts at the fallback 5450.
\<close>

theorem poller_fetch:
  "error (fetch_begin s) = None \<and>
   goldPrice (fetch_begin s) = goldPrice s \<and>
   intervalActive (fetch_begin s) = intervalActive s \<and>
   error (fetch_end (Resolved price) s) = error s \<and>
   (\<not> mounted s \<longrightarrow> fetch_end outcome s = s) \<and>
   goldPrice (fetch_end Rejected s) = goldPrice s \<and>
   goldPrice (fetchGoldPrice Rejected s) = goldPrice s \<and>
   intervalActive (fetchGoldPrice outcome s) = intervalActive s \<and>
   intervalActive (fetch_end outcome s) = intervalActive s \<and>
   (mounted s \<longrightarrow> error (fetch_end Rejected s) = Some ''Failed to fetch gold price'') \<and>
   (mounted s \<longrightarrow> error (fetchGoldPrice Rejected s) = Some ''Failed to fetch gold price'') \<and>
   error (fetchGoldPrice (Resolved price) s) = None \<and>
   (mounted s \<longrightarrow> goldPrice (fetch_end (Resolved price) s) = price) \<and>
   (mounted s \<longrightarrow> goldPrice (fetchGoldPrice (Resolved price) s) = price) \<and>
   goldPrice useGoldPrice_initial = 5450 \<and>
   goldPrice (mount useGoldPrice_initial) = 5450"
  by (cases outcome)
    (simp_all add: fetchGoldPrice_def fetch_end_def fetch_begin_def Let_def
      useGoldPrice_initial_def mount_def)

theorem poller_fetch_witness:
  "mounted (mount useGoldPrice_initial) \<and>
   goldPrice (fetchGoldPrice Rejected (mount useGoldPrice_initial)) = 5450 \<and>
   error (fetchGoldPrice Rejected (mount useGoldPrice_initial)) =
     Some ''Failed to fetch gold price'' \<and>
   intervalActive (fetchGoldPrice Rejected (mount useGoldPrice_initial)) \<and>
   mounted (interval_tick (fetchGoldPrice Rejected (mount useGoldPrice_initial))) \<and>
   error (interval_tick (fetchGoldPrice Rejected (mount useGoldPrice_initial))) = None \<and>
   error (fetch_end (Resolved 6120)
     (interval_tick (fetchGoldPrice Rejected (mount useGoldPrice_initial)))) = None \<and>
   goldPrice (fetch_end (Resolved 6120)
     (interval_tick (fetchGoldPrice Rejected (mount useGoldPrice_initial)))) = 6120 \<and>
   \<not> mounted (unmount (mount useGoldPrice_initial)) \<and>
   fetch_end Rejected (unmount (mount useGoldPrice_initial)) =
     unmount (mount useGoldPrice_initial)"
proof -
  let ?failed = "fetchGoldPrice Rejected (mount useGoldPrice_initial)"
  have m: "mounted (mount useGoldPrice_initial)" "intervalActive (mount useGoldPrice_initial)"
    by (simp_all add: mount_def fetch_begin_def)
  have m2: "mounted ?failed"
    using m by (simp add: fetchGoldPrice_def fetch_end_def fetch_begin_def Let_def)
  note first = poller_fetch [of "mount useGoldPrice_initial" 0 Rejected]
  from first m have a: "intervalActive ?failed" by simp
  then have t: "interval_tick ?failed = fetch_begin ?failed"
    by (simp add: interval_tick_def)
  have m3: "mounted (fetch_begin ?failed)"
    using m2 by (simp add: fetch_begin_def)
  note started = poller_fetch [of ?failed 6120 Rejected]
  note ended = poller_fetch [of "fetch_begin ?failed" 6120 Rejected]
  have u: "\<not> mounted (unmount (mount useGoldPrice_initial))"
    by (simp add: unmount_def)
  note late = poller_fetch [of "unmount (mount useGoldPrice_initial)" 0 Rejected]
  from first m have 1: "goldPrice ?failed = 5450"
    and 2: "error ?failed = Some ''Failed to fetch gold price''"
    by simp_all
  from started have 3: "error (fetch_begin ?failed) = None" by simp
  from ended m3 3 have 4: "error (fetch_end (Resolved 6120) (fetch_begin ?failed)) = None"
    and 5: "goldPrice (fetch_end (Resolved 6120) (fetch_begin ?failed)) = 6120"
    by simp_all
  from late u have 6: "fetch_end Rejected (unmount (mount useGoldPrice_initial)) =
      unmount (mount useGoldPrice_initial)"
    by simp
  show ?thesis
    using m a m3 u 1 2 3 4 5 6 by (simp add: t)
qed

text \<open>
  The claim as first stated fails for a fetch that ends after the hook was unmounted: the
  failure sets no error, and a fetched price is not stored.
\<close>

theorem poller_unmounted_counterexample:
  "error (fetch_end Rejected (unmount (mount useGoldPrice_initial))) = None \<and>
   goldPrice (fetch_end (Resolved 6120) (unmount (mount useGoldPrice_initial))) = 5450"
  by (simp add: fetch_end_def unmount_def mount_def fetch_begin_def useGoldPrice_initial_def
      Let_def)

section \<open>The access policies\<close>











section \<open>The rendered tree: what a card is\<close>

lemma those_eq_Some: "those xs = Some ys \<longleftrightarrow> xs = map Some ys"
proof (induction xs arbitrary: ys)
  case Nil
  then show ?case by auto
next
  case (Cons x xs)
  then show ?case by (cases x) auto
qed

lemma map_eq_map_Some:
  "map f xs = map Some ys \<longleftrightarrow> list_all2 (\<lambda>x y. f x = Some y) xs ys"
  by (auto simp: list_all2_conv_all_nth list_eq_iff_nth_eq)

lemma CategoryCard_Some_iff:
  "CategoryCard n items cats E b c = Some k \<longleftrightarrow>
     (\<exists>m kids. n = Suc m \<and>
        k = Card c b (getItemCount items (name c)) (getImageCount c) (coverImage c)
              (length (getSubcategories cats (cat_id c))) kids \<and>
        list_all2 (\<lambda>s kid. CategoryCard m items cats E True s = Some kid)
          (shown_subcategories cats E c) kids)"
proof (cases n)
  case 0
  then show ?thesis by (simp add: CategoryCard.simps)
next
  case (Suc m)
  then show ?thesis
    by (auto simp: CategoryCard.simps Let_def shown_subcategories_def those_eq_Some
        map_eq_map_Some)
qed

declare CategoryCard.simps [simp del]

lemma CategoryCard_SomeD:
  assumes "CategoryCard n items cats E b c = Some k"
  obtains m kids where "n = Suc m"
    and "k = Card c b (getItemCount items (name c)) (getImageCount c) (coverImage c)
              (length (getSubcategories cats (cat_id c))) kids"
    and "list_all2 (\<lambda>s kid. CategoryCard m items cats E True s = Some kid)
          (shown_subcategories cats E c) kids"
  using iffD1 [OF CategoryCard_Some_iff assms] by blast

lemma CategoryCard_root:
  assumes "CategoryCard n items cats E b c = Some k"
  shows "card_category k = c" and "card_isSubcategory k = b"
    and "card_itemCount k = getItemCount items (name c)"
    and "card_imageCount k = getImageCount c"
    and "card_cover k = coverImage c"
    and "card_subCount k = length (getSubcategories cats (cat_id c))"
  using assms by (auto elim!: CategoryCard_SomeD)

lemma CategoryCard_children:
  assumes "CategoryCard n items cats E b c = Some k"
  shows "map card_category (card_children k) = shown_subcategories cats E c"
    and "\<forall>kid \<in> set (card_children k). card_isSubcategory kid"
proof -
  from assms obtain m where
    l: "list_all2 (\<lambda>s kid. CategoryCard m items cats E True s = Some kid)
          (shown_subcategories cats E c) (card_children k)"
    by (auto elim!: CategoryCard_SomeD)
  then have "list_all2 (\<lambda>s kid. card_category kid = s \<and> card_isSubcategory kid)
      (shown_subcategories cats E c) (card_children k)"
    by (rule list_all2_mono) (auto dest: CategoryCard_root)
  then show "map card_category (card_children k) = shown_subcategories cats E c"
    and "\<forall>kid \<in> set (card_children k). card_isSubcategory kid"
    by (auto simp: list_all2_conv_all_nth list_eq_iff_nth_eq in_set_conv_nth)
qed

lemma card_nodes_self: "k \<in> set (card_nodes k)"
  by (cases k) simp

lemma card_nodes_child:
  "kid \<in> set (card_children k) \<Longrightarrow> x \<in> set (card_nodes kid) \<Longrightarrow> x \<in> set (card_nodes k)"
  by (cases k) auto

lemma card_nodes_cases:
  "x \<in> set (card_nodes k) \<Longrightarrow>
     x = k \<or> (\<exists>kid \<in> set (card_children k). x \<in> set (card_nodes kid))"
  by (cases k) auto

lemma card_categories_nodes: "map card_category (card_nodes k) = card_categories k"
proof (induction k)
  case (Card cat isSub ic im cv sc kids)
  have "map (\<lambda>x. map card_category (card_nodes x)) kids = map card_categories kids"
    by (rule map_cong [OF refl]) (rule Card.IH)
  then have "concat (map (\<lambda>x. map card_category (card_nodes x)) kids) =
      concat (map card_categories kids)"
    by (rule arg_cong)
  then show ?case
    by (simp add: map_concat o_def)
qed

text \<open>Every card of a rendering is what \<open>CategoryCard\<close> returns for its own category.\<close>

lemma card_nodes_rendered:
  "CategoryCard n items cats E b c = Some k \<Longrightarrow> x \<in> set (card_nodes k) \<Longrightarrow>
     \<exists>m b'. CategoryCard m items cats E b' (card_category x) = Some x"
proof (induction n arbitrary: b c k)
  case 0
  then show ?case by (simp add: CategoryCard.simps)
next
  case (Suc n)
  from Suc.prems(1) have
    l: "list_all2 (\<lambda>s kid. CategoryCard n items cats E True s = Some kid)
          (shown_subcategories cats E c) (card_children k)"
    and r: "card_category k = c"
    by (auto elim!: CategoryCard_SomeD)
  from card_nodes_cases [OF Suc.prems(2)] show ?case
  proof
    assume "x = k"
    with Suc.prems(1) r show ?thesis by blast
  next
    assume "\<exists>kid \<in> set (card_children k). x \<in> set (card_nodes kid)"
    then obtain kid where kid: "kid \<in> set (card_children k)" "x \<in> set (card_nodes kid)"
      by blast
    from l kid(1) obtain s where "CategoryCard n items cats E True s = Some kid"
      by (auto simp: list_all2_conv_all_nth in_set_conv_nth)
    from Suc.IH [OF this kid(2)] show ?thesis .
  qed
qed

lemma list_all2_member_right:
  "list_all2 P xs ys \<Longrightarrow> y \<in> set ys \<Longrightarrow> \<exists>x \<in> set xs. P x y"
  by (induction rule: list_all2_induct) auto

lemma list_all2_exists:
  "(\<And>x. x \<in> set xs \<Longrightarrow> \<exists>y. P x y) \<Longrightarrow> \<exists>ys. list_all2 P xs ys"
proof (induction xs)
  case Nil
  then show ?case by simp
next
  case (Cons x xs)
  then obtain y ys where "P x y" "list_all2 P xs ys"
    by (meson list.set_intros)
  then have "list_all2 P (x # xs) (y # ys)" by simp
  then show ?case ..
qed

lemma renderTree_Some_iff:
  "renderTree n items cats E = Some forest \<longleftrightarrow>
     list_all2 (\<lambda>t k. CategoryCard n items cats E False t = Some k)
       (topLevelCategories cats) forest"
  by (simp add: renderTree_def those_eq_Some map_eq_map_Some)

lemma shown_subcategories_member:
  "s \<in> set (shown_subcategories cats E c) \<Longrightarrow>
     s \<in> set cats \<and> parent_id s = Some (cat_id c) \<and> cat_id c \<in> E"
  by (auto simp: shown_subcategories_def getSubcategories_def split: if_splits)

text \<open>More fuel changes nothing in a rendering that returned.\<close>

lemma CategoryCard_fuel_mono:
  "CategoryCard n items cats E b c = Some k \<Longrightarrow> n \<le> m \<Longrightarrow>
     CategoryCard m items cats E b c = Some k"
proof (induction n arbitrary: m b c k)
  case 0
  then show ?case by (simp add: CategoryCard.simps)
next
  case (Suc n)
  from Suc.prems(1) obtain n' kids where
    n': "Suc n = Suc n'"
    and k: "k = Card c b (getItemCount items (name c)) (getImageCount c) (coverImage c)
              (length (getSubcategories cats (cat_id c))) kids"
    and l: "list_all2 (\<lambda>s kid. CategoryCard n' items cats E True s = Some kid)
          (shown_subcategories cats E c) kids"
    by (rule CategoryCard_SomeD)
  from Suc.prems(2) obtain m' where m: "m = Suc m'" "n \<le> m'"
    by (cases m) auto
  from l have "list_all2 (\<lambda>s kid. CategoryCard m' items cats E True s = Some kid)
      (shown_subcategories cats E c) kids"
  proof (rule list_all2_mono)
    fix s kid
    assume "CategoryCard n' items cats E True s = Some kid"
    with n' have "CategoryCard n items cats E True s = Some kid" by simp
    from Suc.IH [OF this m(2)] show "CategoryCard m' items cats E True s = Some kid" .
  qed
  with k m(1) show ?case
    by (subst CategoryCard_Some_iff) blast
qed

lemma renderTree_fuel_mono:
  "renderTree n items cats E = Some forest \<Longrightarrow> n \<le> m \<Longrightarrow>
     renderTree m items cats E = Some forest"
  unfolding renderTree_Some_iff
  by (erule list_all2_mono) (rule CategoryCard_fuel_mono)

section \<open>The rendered tree: parent links\<close>

lemma parent_links_in_list:
  "(x, y) \<in> parent_links cats \<Longrightarrow> x \<in> set cats \<and> y \<in> set cats"
  by (simp add: parent_links_def)

lemma parent_links_single_valued:
  assumes "distinct (map cat_id cats)"
  shows "single_valued (parent_links cats)"
proof (rule single_valuedI)
  fix c p q
  assume "(c, p) \<in> parent_links cats" "(c, q) \<in> parent_links cats"
  then have "p \<in> set cats" "q \<in> set cats" "cat_id p = cat_id q"
    by (auto simp: parent_links_def)
  with assms show "p = q"
    by (auto simp: distinct_map dest: inj_onD)
qed

lemma top_level_no_parent:
  assumes "[] \<notin> cat_id ` set cats" and "\<not> truthy (parent_id t)"
  shows "(t, p) \<notin> parent_links cats"
  using assms by (force simp: parent_links_def truthy_def)

lemma on_cycle_stays:
  assumes sv: "single_valued R" and cyc: "(c, c) \<in> R\<^sup>+" and "(c, t) \<in> R\<^sup>*"
  shows "(t, c) \<in> R\<^sup>+"
  using assms(3)
proof (induction rule: rtrancl_induct)
  case base
  from cyc show ?case .
next
  case (step y z)
  from step.IH obtain z' where "(y, z') \<in> R" "(z', c) \<in> R\<^sup>*"
    by (blast dest: tranclD)
  with sv step.hyps(2) have "(z, c) \<in> R\<^sup>*"
    by (auto dest: single_valuedD)
  then show ?case
    using cyc by (auto dest: rtranclD)
qed

lemma rooted_no_cycle:
  assumes "single_valued R" and "(c, t) \<in> R\<^sup>*" and "\<And>p. (t, p) \<notin> R"
  shows "(c, c) \<notin> R\<^sup>+"
proof
  assume "(c, c) \<in> R\<^sup>+"
  then have "(t, c) \<in> R\<^sup>+" by (rule on_cycle_stays [OF assms(1) _ assms(2)])
  with assms(3) show False by (blast dest: tranclD)
qed

text \<open>Every category in a card's subtree is linked to the card's category.\<close>

lemma card_categories_linked:
  "CategoryCard n items cats E b c = Some k \<Longrightarrow> c \<in> set cats \<Longrightarrow>
   x \<in> set (card_categories k) \<Longrightarrow> (x, c) \<in> (parent_links cats)\<^sup>*"
proof (induction n arbitrary: b c k)
  case 0
  then show ?case by (simp add: CategoryCard.simps)
next
  case (Suc n)
  from Suc.prems(1) obtain n' kids where
    n': "Suc n = Suc n'"
    and k: "k = Card c b (getItemCount items (name c)) (getImageCount c) (coverImage c)
              (length (getSubcategories cats (cat_id c))) kids"
    and l: "list_all2 (\<lambda>s kid. CategoryCard n' items cats E True s = Some kid)
          (shown_subcategories cats E c) kids"
    by (rule CategoryCard_SomeD)
  show ?case
  proof (cases "x = c")
    case True
    then show ?thesis by simp
  next
    case False
    with Suc.prems(3) k obtain kid where kid: "kid \<in> set kids" "x \<in> set (card_categories kid)"
      by auto
    from list_all2_member_right [OF l kid(1)] n' obtain s where
      s: "s \<in> set (shown_subcategories cats E c)" "CategoryCard n items cats E True s = Some kid"
      by auto
    from shown_subcategories_member [OF s(1)] Suc.prems(2)
    have sc: "s \<in> set cats" "(s, c) \<in> parent_links cats"
      by (auto simp: parent_links_def)
    from Suc.IH [OF s(2) sc(1) kid(2)] sc(2) show ?thesis
      by (rule rtrancl_into_rtrancl)
  qed
qed

section \<open>The rendered tree: no category twice\<close>

lemma rooted_top_level:
  "t \<in> set cats \<Longrightarrow> \<not> truthy (parent_id t) \<Longrightarrow> rooted cats t"
  by (auto simp: rooted_def)

lemma rooted_child:
  "rooted cats c \<Longrightarrow> (s, c) \<in> parent_links cats \<Longrightarrow> rooted cats s"
  by (auto simp: rooted_def intro: converse_rtrancl_into_rtrancl)

lemma rooted_acyclic:
  assumes "distinct (map cat_id cats)" and "[] \<notin> cat_id ` set cats" and "rooted cats c"
  shows "(c, c) \<notin> (parent_links cats)\<^sup>+"
proof -
  from assms(3) obtain t where
    t: "\<not> truthy (parent_id t)" "(c, t) \<in> (parent_links cats)\<^sup>*"
    by (auto simp: rooted_def)
  show ?thesis
    using parent_links_single_valued [OF assms(1)] t(2)
      top_level_no_parent [OF assms(2) t(1)]
    by (rule rooted_no_cycle)
qed

text \<open>Two children of a rooted category are not linked to each other.\<close>

lemma siblings_unlinked:
  assumes d: "distinct (map cat_id cats)" and e: "[] \<notin> cat_id ` set cats"
    and r: "rooted cats c"
    and s: "(s, c) \<in> parent_links cats" "(s', c) \<in> parent_links cats" "s \<noteq> s'"
  shows "(s, s') \<notin> (parent_links cats)\<^sup>*"
proof
  assume "(s, s') \<in> (parent_links cats)\<^sup>*"
  with s(3) obtain z where z: "(s, z) \<in> parent_links cats" "(z, s') \<in> (parent_links cats)\<^sup>*"
    by (auto elim: converse_rtranclE)
  from parent_links_single_valued [OF d] z(1) s(1) have "z = c"
    by (rule single_valuedD)
  with z(2) s(2) have "(c, c) \<in> (parent_links cats)\<^sup>+"
    by (auto intro: rtrancl_into_trancl1)
  with rooted_acyclic [OF d e r] show False ..
qed

lemma forest_distinct:
  assumes sv: "single_valued R"
    and l: "list_all2 (\<lambda>s kid. distinct (card_categories kid) \<and>
              (\<forall>x \<in> set (card_categories kid). (x, s) \<in> R\<^sup>*)) ss kids"
    and u: "\<forall>s \<in> set ss. \<forall>s' \<in> set ss. s \<noteq> s' \<longrightarrow> (s, s') \<notin> R\<^sup>*"
    and d: "distinct ss"
  shows "distinct (concat (map card_categories kids))"
  using l u d
proof (induction rule: list_all2_induct)
  case Nil
  then show ?case by simp
next
  case (Cons s ss kid kids)
  have "set (card_categories kid) \<inter> set (card_categories kid') = {}"
    if "kid' \<in> set kids" for kid'
  proof (rule ccontr)
    assume "set (card_categories kid) \<inter> set (card_categories kid') \<noteq> {}"
    then obtain x where x: "x \<in> set (card_categories kid)" "x \<in> set (card_categories kid')"
      by auto
    from list_all2_member_right [OF Cons.hyps(2) that] x(2) obtain s' where
      s': "s' \<in> set ss" "(x, s') \<in> R\<^sup>*"
      by auto
    from Cons.hyps(1) x(1) have "(x, s) \<in> R\<^sup>*" by simp
    with sv s'(2) have "(s, s') \<in> R\<^sup>* \<or> (s', s) \<in> R\<^sup>*"
      by (auto dest: single_valued_confluent)
    moreover from Cons.prems(2) s'(1) have "s \<noteq> s'" by auto
    ultimately show False
      using Cons.prems(1) s'(1) by auto
  qed
  moreover from Cons have "distinct (concat (map card_categories kids))" by simp
  ultimately show ?case
    using Cons.hyps(1) by auto
qed

lemma card_categories_distinct:
  assumes d: "distinct (map cat_id cats)" and e: "[] \<notin> cat_id ` set cats"
  shows "CategoryCard n items cats E b c = Some k \<Longrightarrow> c \<in> set cats \<Longrightarrow> rooted cats c \<Longrightarrow>
     distinct (card_categories k)"
proof (induction n arbitrary: b c k)
  case 0
  then show ?case by (simp add: CategoryCard.simps)
next
  case (Suc n)
  let ?R = "parent_links cats"
  from Suc.prems(1) obtain n' kids where
    n': "Suc n = Suc n'"
    and k: "k = Card c b (getItemCount items (name c)) (getImageCount c) (coverImage c)
              (length (getSubcategories cats (cat_id c))) kids"
    and l: "list_all2 (\<lambda>s kid. CategoryCard n' items cats E True s = Some kid)
          (shown_subcategories cats E c) kids"
    by (rule CategoryCard_SomeD)
  have link: "(s, c) \<in> ?R" if "s \<in> set (shown_subcategories cats E c)" for s
    using shown_subcategories_member [OF that] Suc.prems(2) by (simp add: parent_links_def)
  have l': "list_all2 (\<lambda>s kid. distinct (card_categories kid) \<and>
              (\<forall>x \<in> set (card_categories kid). (x, s) \<in> ?R\<^sup>*))
          (shown_subcategories cats E c) kids"
    unfolding list_all2_conv_all_nth
  proof (intro conjI allI impI ballI)
    show "length (shown_subcategories cats E c) = length kids"
      using l by (rule list_all2_lengthD)
  next
    fix i assume i: "i < length (shown_subcategories cats E c)"
    let ?s = "shown_subcategories cats E c ! i"
    from l i n' have r: "CategoryCard n items cats E True ?s = Some (kids ! i)"
      by (simp add: list_all2_conv_all_nth)
    from i have m: "?s \<in> set (shown_subcategories cats E c)" by simp
    from link [OF m] have sc: "?s \<in> set cats" "rooted cats ?s"
      using Suc.prems(3) by (auto dest: parent_links_in_list rooted_child)
    from Suc.IH [OF r sc] show "distinct (card_categories (kids ! i))" .
    fix x assume "x \<in> set (card_categories (kids ! i))"
    with r sc(1) show "(x, ?s) \<in> ?R\<^sup>*" by (rule card_categories_linked)
  qed
  have u: "\<forall>s \<in> set (shown_subcategories cats E c).
      \<forall>s' \<in> set (shown_subcategories cats E c). s \<noteq> s' \<longrightarrow> (s, s') \<notin> ?R\<^sup>*"
    using siblings_unlinked [OF d e Suc.prems(3)] link by blast
  from d have "distinct cats" by (simp add: distinct_map)
  then have ds: "distinct (shown_subcategories cats E c)"
    by (simp add: shown_subcategories_def getSubcategories_def)
  have 1: "distinct (concat (map card_categories kids))"
    using parent_links_single_valued [OF d] l' u ds by (rule forest_distinct)
  have 2: "c \<notin> set (concat (map card_categories kids))"
  proof
    assume "c \<in> set (concat (map card_categories kids))"
    then obtain kid where kid: "kid \<in> set kids" "c \<in> set (card_categories kid)"
      by auto
    from list_all2_member_right [OF l' kid(1)] kid(2) obtain s where
      s: "s \<in> set (shown_subcategories cats E c)" "(c, s) \<in> ?R\<^sup>*"
      by auto
    from s(2) link [OF s(1)] have "(c, c) \<in> ?R\<^sup>+"
      by (rule rtrancl_into_trancl1)
    with rooted_acyclic [OF d e Suc.prems(3)] show False ..
  qed
  from 1 2 k show ?case by simp
qed

lemma top_levels_unlinked:
  assumes "[] \<notin> cat_id ` set cats"
  shows "\<forall>t \<in> set (topLevelCategories cats). \<forall>t' \<in> set (topLevelCategories cats).
     t \<noteq> t' \<longrightarrow> (t, t') \<notin> (parent_links cats)\<^sup>*"
proof (intro ballI impI notI)
  fix t t'
  assume "t \<in> set (topLevelCategories cats)" "t \<noteq> t'" "(t, t') \<in> (parent_links cats)\<^sup>*"
  then obtain z where "\<not> truthy (parent_id t)" "(t, z) \<in> parent_links cats"
    by (auto simp: topLevelCategories_def elim: converse_rtranclE)
  with top_level_no_parent [OF assms] show False by blast
qed

lemma renderTree_cards:
  assumes "renderTree n items cats E = Some forest" and "k \<in> set forest"
  obtains t where "t \<in> set cats" and "\<not> truthy (parent_id t)"
    and "CategoryCard n items cats E False t = Some k"
proof -
  from assms obtain t where "t \<in> set (topLevelCategories cats)"
    "CategoryCard n items cats E False t = Some k"
    unfolding renderTree_Some_iff by (blast dest: list_all2_member_right)
  then show thesis
    using that by (auto simp: topLevelCategories_def)
qed

lemma rendered_categories_concat:
  "rendered_categories forest = concat (map card_categories forest)"
  by (simp add: rendered_categories_def all_cards_def map_concat o_def card_categories_nodes)

lemma renderTree_distinct:
  assumes d: "distinct (map cat_id cats)" and e: "[] \<notin> cat_id ` set cats"
    and r: "renderTree n items cats E = Some forest"
  shows "distinct (rendered_categories forest)"
proof -
  let ?R = "parent_links cats"
  from r have l: "list_all2 (\<lambda>t k. CategoryCard n items cats E False t = Some k)
       (topLevelCategories cats) forest"
    by (simp add: renderTree_Some_iff)
  have "list_all2 (\<lambda>t k. distinct (card_categories k) \<and>
              (\<forall>x \<in> set (card_categories k). (x, t) \<in> ?R\<^sup>*))
          (topLevelCategories cats) forest"
    unfolding list_all2_conv_all_nth
  proof (intro conjI allI impI ballI)
    show "length (topLevelCategories cats) = length forest"
      using l by (rule list_all2_lengthD)
  next
    fix i assume i: "i < length (topLevelCategories cats)"
    let ?t = "topLevelCategories cats ! i"
    from l i have c: "CategoryCard n items cats E False ?t = Some (forest ! i)"
      by (simp add: list_all2_conv_all_nth)
    from i have "?t \<in> set (topLevelCategories cats)" by simp
    then have t: "?t \<in> set cats" "rooted cats ?t"
      by (auto simp: topLevelCategories_def intro: rooted_top_level)
    from card_categories_distinct [OF d e c t] show "distinct (card_categories (forest ! i))" .
    fix x assume "x \<in> set (card_categories (forest ! i))"
    with c t(1) show "(x, ?t) \<in> ?R\<^sup>*" by (rule card_categories_linked)
  qed
  moreover from d have "distinct (topLevelCategories cats)"
    by (simp add: topLevelCategories_def distinct_map)
  ultimately show ?thesis
    unfolding rendered_categories_concat
    using parent_links_single_valued [OF d] top_levels_unlinked [OF e]
    by (blast intro: forest_distinct)
qed

section \<open>The rendered tree: the walk ends\<close>

lemma ancestors_in_list: "ancestors cats c \<subseteq> set cats"
  by (auto simp: ancestors_def elim: tranclE dest: parent_links_in_list)

lemma ancestors_child:
  assumes "single_valued (parent_links cats)" and "(s, c) \<in> parent_links cats"
  shows "ancestors cats s = insert c (ancestors cats c)"
proof (intro set_eqI iffI)
  fix p
  assume "p \<in> ancestors cats s"
  then obtain z where "(s, z) \<in> parent_links cats" "(z, p) \<in> (parent_links cats)\<^sup>*"
    by (auto simp: ancestors_def dest: tranclD)
  with assms have "(c, p) \<in> (parent_links cats)\<^sup>*"
    by (auto dest: single_valuedD)
  then show "p \<in> insert c (ancestors cats c)"
    by (auto simp: ancestors_def dest: rtranclD)
next
  fix p
  assume "p \<in> insert c (ancestors cats c)"
  with assms(2) show "p \<in> ancestors cats s"
    by (auto simp: ancestors_def intro: trancl_into_trancl2)
qed

lemma ancestors_card:
  assumes "distinct (map cat_id cats)" and "[] \<notin> cat_id ` set cats"
    and "rooted cats c" and "c \<in> set cats"
  shows "card (ancestors cats c) < length cats"
proof -
  from rooted_acyclic [OF assms(1-3)] have "c \<notin> ancestors cats c"
    by (simp add: ancestors_def)
  with assms(4) ancestors_in_list [of cats c] have "ancestors cats c \<subset> set cats"
    by blast
  then have "card (ancestors cats c) < card (set cats)"
    by (simp add: psubset_card_mono)
  also have "\<dots> \<le> length cats" by (rule card_length)
  finally show ?thesis .
qed

lemma CategoryCard_returns:
  assumes d: "distinct (map cat_id cats)" and e: "[] \<notin> cat_id ` set cats"
  shows "c \<in> set cats \<Longrightarrow> rooted cats c \<Longrightarrow> length cats \<le> n + card (ancestors cats c) \<Longrightarrow>
     \<exists>k. CategoryCard n items cats E b c = Some k"
proof (induction n arbitrary: b c)
  case 0
  with ancestors_card [OF d e "0.prems"(2, 1)] show ?case by simp
next
  case (Suc n)
  have "\<exists>kid. CategoryCard n items cats E True s = Some kid"
    if "s \<in> set (shown_subcategories cats E c)" for s
  proof -
    from shown_subcategories_member [OF that] Suc.prems(1)
    have sc: "s \<in> set cats" "(s, c) \<in> parent_links cats"
      by (auto simp: parent_links_def)
    from Suc.prems(2) sc(2) have r: "rooted cats s" by (rule rooted_child)
    from rooted_acyclic [OF d e Suc.prems(2)] have "c \<notin> ancestors cats c"
      by (simp add: ancestors_def)
    moreover have "finite (ancestors cats c)"
      using ancestors_in_list by (rule finite_subset) simp
    ultimately have "card (ancestors cats s) = Suc (card (ancestors cats c))"
      using ancestors_child [OF parent_links_single_valued [OF d] sc(2)] by simp
    with Suc.prems(3) have "length cats \<le> n + card (ancestors cats s)" by simp
    with sc(1) r show ?thesis by (rule Suc.IH)
  qed
  then obtain kids where
    "list_all2 (\<lambda>s kid. CategoryCard n items cats E True s = Some kid)
       (shown_subcategories cats E c) kids"
    using list_all2_exists [of "shown_subcategories cats E c"
        "\<lambda>s kid. CategoryCard n items cats E True s = Some kid"] by blast
  then show ?case
    by (subst CategoryCard_Some_iff) blast
qed

lemma renderTree_returns:
  assumes d: "distinct (map cat_id cats)" and e: "[] \<notin> cat_id ` set cats"
    and n: "length cats \<le> n"
  shows "\<exists>forest. renderTree n items cats E = Some forest"
proof -
  have "\<exists>k. CategoryCard n items cats E False t = Some k"
    if "t \<in> set (topLevelCategories cats)" for t
  proof -
    from that have t: "t \<in> set cats" "rooted cats t"
      by (auto simp: topLevelCategories_def intro: rooted_top_level)
    from n have "length cats \<le> n + card (ancestors cats t)" by simp
    with t show ?thesis by (rule CategoryCard_returns [OF d e])
  qed
  then show ?thesis
    unfolding renderTree_Some_iff by (rule list_all2_exists)
qed

lemma rendered_categories_rooted:
  assumes "renderTree n items cats E = Some forest" and "x \<in> set (rendered_categories forest)"
  shows "x \<in> set cats \<and> rooted cats x"
proof -
  from assms(2) obtain k where k: "k \<in> set forest" "x \<in> set (card_categories k)"
    by (auto simp: rendered_categories_concat)
  from assms(1) k(1) obtain t where
    t: "t \<in> set cats" "\<not> truthy (parent_id t)" "CategoryCard n items cats E False t = Some k"
    by (rule renderTree_cards)
  from t(3, 1) k(2) have l: "(x, t) \<in> (parent_links cats)\<^sup>*"
    by (rule card_categories_linked)
  with t(1) have "x \<in> set cats"
    by (auto elim: converse_rtranclE dest: parent_links_in_list)
  with l t(1, 2) show ?thesis
    by (auto simp: rooted_def)
qed

text \<open>
  C9, as amended. For every category list with distinct ids, none of them the empty string,
  the rendering returns within a call depth of the length of the list, and more depth
  changes nothing; every rendered category is linked by parent links to a top-level
  category (one whose \<open>parent_id\<close> is absent or empty), none lies on a cycle of parent
  links, and none is rendered twice.
\<close>

theorem tree_walk_terminates:
  assumes "distinct (map cat_id cats)" and "[] \<notin> cat_id ` set cats"
  shows "(\<exists>forest. renderTree (length cats) items cats E = Some forest) \<and>
     (\<forall>n forest. renderTree n items cats E = Some forest \<longrightarrow>
        (\<forall>m\<ge>n. renderTree m items cats E = Some forest) \<and>
        (\<forall>x \<in> set (rendered_categories forest).
           x \<in> set cats \<and> rooted cats x \<and> (x, x) \<notin> (parent_links cats)\<^sup>+) \<and>
        distinct (rendered_categories forest))"
proof (intro conjI allI impI ballI)
  show "\<exists>forest. renderTree (length cats) items cats E = Some forest"
    using assms by (rule renderTree_returns) simp
next
  fix n forest m
  assume "renderTree n items cats E = Some forest" "n \<le> m"
  then show "renderTree m items cats E = Some forest"
    by (rule renderTree_fuel_mono)
next
  fix n forest x
  assume r: "renderTree n items cats E = Some forest"
    and x: "x \<in> set (rendered_categories forest)"
  from rendered_categories_rooted [OF r x]
  show "x \<in> set cats" and rt: "rooted cats x" by simp_all
  from assms rt show "(x, x) \<notin> (parent_links cats)\<^sup>+"
    by (rule rooted_acyclic)
next
  fix n forest
  assume "renderTree n items cats E = Some forest"
  with assms show "distinct (rendered_categories forest)"
    by (rule renderTree_distinct)
qed

lemmas render_eval = renderTree_def topLevelCategories_def getSubcategories_def truthy_def
  mk_category_def getItemCount_def getImageCount_def coverImage_def leaf_def Let_def
  CategoryCard.simps

theorem tree_walk_terminates_witness:
  "distinct (map cat_id looped) \<and> [] \<notin> cat_id ` set looped \<and>
   (mk_category ''x'' ''Bangles'' (Some ''y''), mk_category ''x'' ''Bangles'' (Some ''y''))
     \<in> (parent_links looped)\<^sup>+ \<and>
   renderTree 2 [] looped {''a'', ''x'', ''y'', ''s''} =
     Some [Card (mk_category ''a'' ''Anklets'' None) False 0 0 fallbackImage 1
            [leaf (mk_category ''k'' ''Toe Rings'' (Some ''a'')) True]] \<and>
   renderTree (length looped) [] looped {''a'', ''x'', ''y'', ''s''} =
     Some [Card (mk_category ''a'' ''Anklets'' None) False 0 0 fallbackImage 1
            [leaf (mk_category ''k'' ''Toe Rings'' (Some ''a'')) True]] \<and>
   rooted looped (mk_category ''k'' ''Toe Rings'' (Some ''a'')) \<and>
   distinct (rendered_categories
     [Card (mk_category ''a'' ''Anklets'' None) False 0 0 fallbackImage 1
        [leaf (mk_category ''k'' ''Toe Rings'' (Some ''a'')) True]])"
proof -
  let ?x = "mk_category ''x'' ''Bangles'' (Some ''y'')"
  let ?y = "mk_category ''y'' ''Chains'' (Some ''x'')"
  let ?forest = "[Card (mk_category ''a'' ''Anklets'' None) False 0 0 fallbackImage 1
            [leaf (mk_category ''k'' ''Toe Rings'' (Some ''a'')) True]]"
  have d: "distinct (map cat_id looped)" and e: "[] \<notin> cat_id ` set looped"
    by (simp_all add: looped_def mk_category_def)
  have "(?x, ?y) \<in> parent_links looped" "(?y, ?x) \<in> parent_links looped"
    by (simp_all add: parent_links_def looped_def mk_category_def)
  then have c: "(?x, ?x) \<in> (parent_links looped)\<^sup>+"
    by (blast intro: trancl_into_trancl)
  have r: "renderTree 2 [] looped {''a'', ''x'', ''y'', ''s''} = Some ?forest"
    by (simp add: render_eval looped_def eval_nat_numeral)
  have k: "mk_category ''k'' ''Toe Rings'' (Some ''a'') \<in> set (rendered_categories ?forest)"
    by (simp add: rendered_categories_def all_cards_def leaf_def)
  have l: "length looped = 5" by (simp add: looped_def)
  note walk = tree_walk_terminates [OF d e, of "[]" "{''a'', ''x'', ''y'', ''s''}"]
  note at_r = conjunct2 [OF walk, rule_format, OF r]
  have "2 \<le> length looped" by (simp add: l)
  with at_r have m: "renderTree (length looped) [] looped {''a'', ''x'', ''y'', ''s''} =
      Some ?forest"
    by blast
  from at_r k have "rooted looped (mk_category ''k'' ''Toe Rings'' (Some ''a''))"
    by blast
  moreover from at_r have "distinct (rendered_categories ?forest)"
    by blast
  moreover note m
  ultimately show ?thesis
    using d e c r by blast
qed

text \<open>
  The claim as first stated fails on a list with distinct ids where a category has the
  empty string as its id and as its \<open>parent_id\<close>: it is a top-level category and its own
  subcategory, and once expanded its card never returns.
\<close>

lemma self_parent_card:
  "CategoryCard n items self_parent {[]} b (mk_category [] ''Rings'' (Some [])) = None"
  by (induction n arbitrary: b)
    (simp_all add: CategoryCard.simps self_parent_def getSubcategories_def mk_category_def)

theorem tree_walk_counterexample:
  "distinct (map cat_id self_parent) \<and> (\<forall>n. renderTree n [] self_parent {[]} = None)"
proof -
  have "renderTree n [] self_parent {[]} = None" for n
    using self_parent_card [of n "[]" False]
    by (simp add: renderTree_def topLevelCategories_def truthy_def)
      (simp add: self_parent_def mk_category_def)
  then show ?thesis
    by (simp add: self_parent_def)
qed

section \<open>The rendered tree: parents and children\<close>

lemma list_all2_map_eq: "list_all2 (\<lambda>x y. f y = x) xs ys \<Longrightarrow> map f ys = xs"
  by (induction rule: list_all2_induct) auto

lemma renderTree_roots:
  assumes "renderTree n items cats E = Some forest"
  shows "map card_category forest = topLevelCategories cats"
proof -
  from assms have "list_all2 (\<lambda>t k. CategoryCard n items cats E False t = Some k)
       (topLevelCategories cats) forest"
    by (simp add: renderTree_Some_iff)
  then have "list_all2 (\<lambda>t k. card_category k = t) (topLevelCategories cats) forest"
    by (rule list_all2_mono) (rule CategoryCard_root)
  then show ?thesis by (rule list_all2_map_eq)
qed

lemma shown_subcategories_subseq: "subseq (shown_subcategories cats E c) cats"
  by (simp add: shown_subcategories_def getSubcategories_def)

lemma all_cards_rendered:
  assumes "renderTree n items cats E = Some forest" and "node \<in> set (all_cards forest)"
  obtains m b where "CategoryCard m items cats E b (card_category node) = Some node"
    and "card_category node \<in> set cats"
proof -
  from assms(2) obtain k where k: "k \<in> set forest" "node \<in> set (card_nodes k)"
    by (auto simp: all_cards_def)
  from assms(1) k(1) obtain t where "CategoryCard n items cats E False t = Some k"
    by (rule renderTree_cards)
  from card_nodes_rendered [OF this k(2)] obtain m b where
    c: "CategoryCard m items cats E b (card_category node) = Some node"
    by blast
  from assms(2) have "card_category node \<in> set (rendered_categories forest)"
    by (simp add: rendered_categories_def)
  with assms(1) have "card_category node \<in> set cats"
    by (blast dest: rendered_categories_rooted)
  with c show thesis by (rule that)
qed

lemma rendering_structure_of:
  assumes "distinct (map cat_id cats)" and "[] \<notin> cat_id ` set cats"
    and "renderTree n items cats E = Some forest"
  shows "tree_shape cats E forest"
  unfolding tree_shape_def
proof (intro conjI ballI impI)
  show roots: "map card_category forest = topLevelCategories cats"
    using assms(3) by (rule renderTree_roots)
  show "subseq (map card_category forest) cats"
    by (simp add: roots topLevelCategories_def)
  show "distinct (rendered_categories forest)"
    using assms by (rule renderTree_distinct)
next
  fix top assume "top \<in> set forest"
  with assms(3) obtain t where
    t: "\<not> truthy (parent_id t)" "CategoryCard n items cats E False t = Some top"
    by (rule renderTree_cards)
  from CategoryCard_root(1, 2) [OF t(2)] t(1)
  show "\<not> truthy (parent_id (card_category top))" and "\<not> card_isSubcategory top"
    by simp_all
next
  fix node assume "node \<in> set (all_cards forest)"
  with assms(3) obtain m b where
    c: "CategoryCard m items cats E b (card_category node) = Some node"
    and in_list: "card_category node \<in> set cats"
    by (rule all_cards_rendered)
  show kids: "map card_category (card_children node) =
      shown_subcategories cats E (card_category node)"
    using c by (rule CategoryCard_children)
  show "subseq (map card_category (card_children node)) cats"
    by (simp add: kids shown_subcategories_subseq)
  fix kid assume kid: "kid \<in> set (card_children node)"
  with CategoryCard_children(2) [OF c] show "card_isSubcategory kid" by simp
  from kid have "card_category kid \<in> set (map card_category (card_children node))"
    by simp
  then have "card_category kid \<in> set (shown_subcategories cats E (card_category node))"
    by (simp only: kids)
  then show parent: "parent_id (card_category kid) = Some (cat_id (card_category node))"
    by (simp add: shown_subcategories_member)
  fix p assume "p \<in> set cats" "parent_id (card_category kid) = Some (cat_id p)"
  with parent in_list assms(1) show "p = card_category node"
    by (auto simp: distinct_map dest: inj_onD)
qed

text \<open>
  C1, as amended. For every category list with distinct ids, none of them the empty
  string, and every list of items, the rendering returns, the same at every call depth at
  which it returns, and has these properties. Its top-level cards are the categories whose
  \<open>parent_id\<close> is absent or the empty string, in the order of the list. The children of a
  card are the categories whose \<open>parent_id\<close> is the card's id, in the order of the list,
  when the card is expanded, and none otherwise; each child is marked as a subcategory, and
  its parent is the only category of the list whose id is the child's \<open>parent_id\<close>. No
  category is rendered twice.
\<close>

theorem rendering_structure:
  assumes "distinct (map cat_id cats)" and "[] \<notin> cat_id ` set cats"
  shows "\<exists>forest. renderTree (length cats) items cats E = Some forest \<and>
     (\<forall>n other. renderTree n items cats E = Some other \<longrightarrow> other = forest) \<and>
     map card_category forest = topLevelCategories cats \<and>
     subseq (map card_category forest) cats \<and>
     (\<forall>top \<in> set forest.
        \<not> truthy (parent_id (card_category top)) \<and> \<not> card_isSubcategory top) \<and>
     (\<forall>node \<in> set (all_cards forest).
        map card_category (card_children node) =
          shown_subcategories cats E (card_category node) \<and>
        subseq (map card_category (card_children node)) cats \<and>
        (\<forall>kid \<in> set (card_children node).
           card_isSubcategory kid \<and>
           parent_id (card_category kid) = Some (cat_id (card_category node)) \<and>
           (\<forall>p \<in> set cats.
              parent_id (card_category kid) = Some (cat_id p) \<longrightarrow> p = card_category node))) \<and>
     distinct (rendered_categories forest)"
proof -
  from assms obtain forest where r: "renderTree (length cats) items cats E = Some forest"
    using renderTree_returns [of cats "length cats" items E] by auto
  have "other = forest" if "renderTree n items cats E = Some other" for n other
  proof -
    from that have "renderTree (max n (length cats)) items cats E = Some other"
      by (rule renderTree_fuel_mono) simp
    moreover from r have "renderTree (max n (length cats)) items cats E = Some forest"
      by (rule renderTree_fuel_mono) simp
    ultimately show ?thesis by simp
  qed
  with r rendering_structure_of [OF assms r]
  have "\<exists>forest. renderTree (length cats) items cats E = Some forest \<and>
     (\<forall>n other. renderTree n items cats E = Some other \<longrightarrow> other = forest) \<and>
     tree_shape cats E forest"
    by blast
  then show ?thesis
    unfolding tree_shape_def .
qed

theorem rendering_structure_witness:
  "distinct (map cat_id catalogue) \<and> [] \<notin> cat_id ` set catalogue \<and>
   renderTree 2 rings_items catalogue {''r0'', ''r1''} = Some catalogue_forest \<and>
   renderTree (length catalogue) rings_items catalogue {''r0'', ''r1''} = Some catalogue_forest \<and>
   map card_category catalogue_forest =
     [mk_category ''b0'' ''Bangles'' None, mk_category ''r0'' ''Rings'' None] \<and>
   distinct (rendered_categories catalogue_forest)"
proof -
  have d: "distinct (map cat_id catalogue)" and e: "[] \<notin> cat_id ` set catalogue"
    by (simp_all add: catalogue_def mk_category_def)
  have r: "renderTree 2 rings_items catalogue {''r0'', ''r1''} = Some catalogue_forest"
    by (simp add: render_eval catalogue_def catalogue_forest_def rings_items_def
        eval_nat_numeral)
  have t: "topLevelCategories catalogue =
      [mk_category ''b0'' ''Bangles'' None, mk_category ''r0'' ''Rings'' None]"
    by (simp add: topLevelCategories_def catalogue_def mk_category_def truthy_def)
  from rendering_structure [OF d e, of rings_items "{''r0'', ''r1''}", folded tree_shape_def]
  obtain forest where
    f: "renderTree (length catalogue) rings_items catalogue {''r0'', ''r1''} = Some forest"
    and u: "\<forall>n other. renderTree n rings_items catalogue {''r0'', ''r1''} = Some other \<longrightarrow>
      other = forest"
    and s: "tree_shape catalogue {''r0'', ''r1''} forest"
    by blast
  from u r have c: "catalogue_forest = forest" by blast
  from s have "map card_category forest = topLevelCategories catalogue"
    and "distinct (rendered_categories forest)"
    unfolding tree_shape_def by blast+
  with f c d e r t show ?thesis by simp
qed

text \<open>
  The claim as first stated fails on a list with distinct ids, one of them the empty
  string: \<open>Anklets\<close>, whose \<open>parent_id\<close> is the empty string, is rendered as a top-level card,
  and again as a child of \<open>Brooches\<close>, whose id is the empty string. Alone in a list,
  \<open>Anklets\<close> is a top-level card whose \<open>parent_id\<close> is not absent.
\<close>

theorem rendering_structure_counterexample:
  "distinct (map cat_id empty_id_list) \<and>
   renderTree 3 [] empty_id_list {[], ''b''} =
     Some [leaf (mk_category ''a'' ''Anklets'' (Some [])) False,
           Card (mk_category ''b'' ''Chains'' None) False 0 0 fallbackImage 1
             [Card (mk_category [] ''Brooches'' (Some ''b'')) True 0 0 fallbackImage 1
               [leaf (mk_category ''a'' ''Anklets'' (Some [])) True]]] \<and>
   \<not> distinct (rendered_categories
     [leaf (mk_category ''a'' ''Anklets'' (Some [])) False,
      Card (mk_category ''b'' ''Chains'' None) False 0 0 fallbackImage 1
        [Card (mk_category [] ''Brooches'' (Some ''b'')) True 0 0 fallbackImage 1
          [leaf (mk_category ''a'' ''Anklets'' (Some [])) True]]]) \<and>
   renderTree 1 [] [mk_category ''a'' ''Anklets'' (Some [])] {} =
     Some [leaf (mk_category ''a'' ''Anklets'' (Some [])) False] \<and>
   parent_id (card_category (leaf (mk_category ''a'' ''Anklets'' (Some [])) False)) \<noteq> None"
proof -
  have "renderTree 3 [] empty_id_list {[], ''b''} =
     Some [leaf (mk_category ''a'' ''Anklets'' (Some [])) False,
           Card (mk_category ''b'' ''Chains'' None) False 0 0 fallbackImage 1
             [Card (mk_category [] ''Brooches'' (Some ''b'')) True 0 0 fallbackImage 1
               [leaf (mk_category ''a'' ''Anklets'' (Some [])) True]]]"
    by (simp add: render_eval empty_id_list_def eval_nat_numeral)
  moreover have "renderTree 1 [] [mk_category ''a'' ''Anklets'' (Some [])] {} =
     Some [leaf (mk_category ''a'' ''Anklets'' (Some [])) False]"
    by (simp add: render_eval)
  ultimately show ?thesis
    by (simp add: empty_id_list_def mk_category_def leaf_def rendered_categories_def
        all_cards_def)
qed

section \<open>The rendered tree: how deep it is\<close>

lemma fold_max_le: "fold max xs a \<le> b \<longleftrightarrow> a \<le> b \<and> (\<forall>x \<in> set xs. x \<le> (b::nat))"
  by (induction xs arbitrary: a) auto

lemma child_card_rendered:
  assumes h: "\<forall>d \<in> set cats. \<forall>c \<in> set cats. \<forall>p \<in> set cats.
      parent_id d = Some (cat_id c) \<longrightarrow> parent_id c \<noteq> Some (cat_id p)"
    and c: "c \<in> set cats" and s: "s \<in> set (shown_subcategories cats E c)"
  shows "CategoryCard (Suc m) items cats E True s = Some (child_card items cats s)"
proof -
  from shown_subcategories_member [OF s] have sc: "s \<in> set cats" "parent_id s = Some (cat_id c)"
    by simp_all
  have "shown_subcategories cats E s = []"
  proof (rule ccontr)
    assume "shown_subcategories cats E s \<noteq> []"
    then obtain d where "d \<in> set (shown_subcategories cats E s)"
      by (cases "shown_subcategories cats E s") auto
    then have "d \<in> set cats" "parent_id d = Some (cat_id s)"
      by (simp_all add: shown_subcategories_member)
    with h sc c show False by blast
  qed
  then show ?thesis
    by (subst CategoryCard_Some_iff) (simp add: child_card_def)
qed

lemma top_card_rendered:
  assumes h: "\<forall>d \<in> set cats. \<forall>c \<in> set cats. \<forall>p \<in> set cats.
      parent_id d = Some (cat_id c) \<longrightarrow> parent_id c \<noteq> Some (cat_id p)"
    and c: "c \<in> set cats"
  shows "CategoryCard (Suc (Suc m)) items cats E False c = Some (top_card items cats E c)"
proof -
  have "list_all2 (\<lambda>s kid. CategoryCard (Suc m) items cats E True s = Some kid)
      (shown_subcategories cats E c)
      (map (child_card items cats) (shown_subcategories cats E c))"
    by (simp add: list_all2_map2 list_all2_same child_card_rendered [OF h c])
  then show ?thesis
    by (subst CategoryCard_Some_iff) (simp add: top_card_def)
qed

lemma two_tier_forest:
  assumes h: "\<forall>d \<in> set cats. \<forall>c \<in> set cats. \<forall>p \<in> set cats.
      parent_id d = Some (cat_id c) \<longrightarrow> parent_id c \<noteq> Some (cat_id p)"
  shows "renderTree (Suc (Suc m)) items cats E =
     Some (map (top_card items cats E) (topLevelCategories cats))"
proof -
  have "t \<in> set cats" if "t \<in> set (topLevelCategories cats)" for t
    using that by (simp add: topLevelCategories_def)
  then show ?thesis
    by (simp add: renderTree_Some_iff list_all2_map2 list_all2_same top_card_rendered [OF h])
qed

lemma two_tier_of:
  assumes "\<forall>d \<in> set cats. \<forall>c \<in> set cats. \<forall>p \<in> set cats.
      parent_id d = Some (cat_id c) \<longrightarrow> parent_id c \<noteq> Some (cat_id p)"
    and "2 \<le> n"
  shows "\<exists>forest. renderTree n items cats E = Some forest \<and>
     map card_category forest = topLevelCategories cats \<and>
     (\<forall>top \<in> set forest.
        map card_category (card_children top) =
          shown_subcategories cats E (card_category top) \<and>
        (\<forall>kid \<in> set (card_children top). card_children kid = []) \<and>
        card_depth top \<le> 2)"
proof -
  from assms(2) obtain m where n: "n = Suc (Suc m)"
    by (auto simp: numeral_2_eq_2 le_Suc_eq dest: Suc_le_D)
  let ?forest = "map (top_card items cats E) (topLevelCategories cats)"
  have r: "renderTree n items cats E = Some ?forest"
    unfolding n using assms(1) by (rule two_tier_forest)
  have "map card_category ?forest = topLevelCategories cats"
    by (simp add: o_def top_card_def)
  moreover have "\<forall>top \<in> set ?forest.
        map card_category (card_children top) =
          shown_subcategories cats E (card_category top) \<and>
        (\<forall>kid \<in> set (card_children top). card_children kid = []) \<and>
        card_depth top \<le> 2"
    by (auto simp: top_card_def child_card_def o_def fold_max_le)
  ultimately show ?thesis
    using r by blast
qed

lemma every_card_shows_its_subcategories:
  assumes "renderTree n items cats E = Some forest" and "node \<in> set (all_cards forest)"
  shows "map card_category (card_children node) =
     shown_subcategories cats E (card_category node)"
proof -
  from assms obtain m b where
    "CategoryCard m items cats E b (card_category node) = Some node"
    by (rule all_cards_rendered)
  then show ?thesis by (rule CategoryCard_children)
qed

text \<open>
  C2, as amended. In every rendering, each card, top-level or not, has beneath it the
  categories whose \<open>parent_id\<close> is its category's id when it is expanded, and nothing when
  it is collapsed. For every category list in which no category's parent is itself a
  subcategory, the rendering returns and has two tiers: top-level cards and, beneath an
  expanded one, the cards of its subcategories, which show nothing beneath them.
\<close>

theorem two_tier_rendering:
  "(\<forall>forest. renderTree n items cats E = Some forest \<longrightarrow>
      (\<forall>node \<in> set (all_cards forest).
         map card_category (card_children node) =
           shown_subcategories cats E (card_category node))) \<and>
   ((\<forall>d \<in> set cats. \<forall>c \<in> set cats. \<forall>p \<in> set cats.
       parent_id d = Some (cat_id c) \<longrightarrow> parent_id c \<noteq> Some (cat_id p)) \<and> 2 \<le> n \<longrightarrow>
    (\<exists>forest. renderTree n items cats E = Some forest \<and>
       map card_category forest = topLevelCategories cats \<and>
       (\<forall>top \<in> set forest.
          map card_category (card_children top) =
            shown_subcategories cats E (card_category top) \<and>
          (\<forall>kid \<in> set (card_children top). card_children kid = []) \<and>
          card_depth top \<le> 2)))"
proof (intro conjI allI impI ballI)
  fix forest node
  assume "renderTree n items cats E = Some forest" "node \<in> set (all_cards forest)"
  then show "map card_category (card_children node) =
      shown_subcategories cats E (card_category node)"
    by (rule every_card_shows_its_subcategories)
next
  assume "(\<forall>d \<in> set cats. \<forall>c \<in> set cats. \<forall>p \<in> set cats.
       parent_id d = Some (cat_id c) \<longrightarrow> parent_id c \<noteq> Some (cat_id p)) \<and> 2 \<le> n"
  then show "\<exists>forest. renderTree n items cats E = Some forest \<and>
       map card_category forest = topLevelCategories cats \<and>
       (\<forall>top \<in> set forest.
          map card_category (card_children top) =
            shown_subcategories cats E (card_category top) \<and>
          (\<forall>kid \<in> set (card_children top). card_children kid = []) \<and>
          card_depth top \<le> 2)"
    using two_tier_of [of cats n items E] by blast
qed

theorem two_tier_rendering_witness:
  "renderTree 2 rings_items catalogue {''r0'', ''r1''} = Some catalogue_forest \<and>
   renderTree 9 rings_items catalogue {''r0'', ''r1''} = Some catalogue_forest \<and>
   map card_depth catalogue_forest = [1, 2] \<and>
   map (\<lambda>node. map card_category (card_children node)) (all_cards catalogue_forest) =
     map (\<lambda>node. shown_subcategories catalogue {''r0'', ''r1''} (card_category node))
       (all_cards catalogue_forest) \<and>
   map (\<lambda>node. map cat_id (card_category node # map card_category (card_children node)))
       (all_cards catalogue_forest) =
     [[''b0''], [''r0'', ''r1'', ''r2''], [''r1''], [''r2'']]"
proof -
  have h: "\<forall>d \<in> set catalogue. \<forall>c \<in> set catalogue. \<forall>p \<in> set catalogue.
      parent_id d = Some (cat_id c) \<longrightarrow> parent_id c \<noteq> Some (cat_id p)"
    by (simp add: catalogue_def mk_category_def)
  have r: "renderTree 2 rings_items catalogue {''r0'', ''r1''} = Some catalogue_forest"
    by (simp add: render_eval catalogue_def catalogue_forest_def rings_items_def
        eval_nat_numeral)
  have "(2::nat) \<le> 9" by simp
  with h obtain forest where f: "renderTree 9 rings_items catalogue {''r0'', ''r1''} = Some forest"
    using two_tier_rendering [of 9 rings_items catalogue "{''r0'', ''r1''}"] by blast
  from renderTree_fuel_mono [OF r, of 9] f have e: "forest = catalogue_forest" by simp
  from two_tier_rendering [of 2 rings_items catalogue "{''r0'', ''r1''}"] r
  have "\<forall>node \<in> set (all_cards catalogue_forest).
      map card_category (card_children node) =
        shown_subcategories catalogue {''r0'', ''r1''} (card_category node)"
    by blast
  then have s: "map (\<lambda>node. map card_category (card_children node)) (all_cards catalogue_forest) =
     map (\<lambda>node. shown_subcategories catalogue {''r0'', ''r1''} (card_category node))
       (all_cards catalogue_forest)"
    by simp
  have "map (\<lambda>node. map cat_id (card_category node # map card_category (card_children node)))
       (all_cards catalogue_forest) =
     [[''b0''], [''r0'', ''r1'', ''r2''], [''r1''], [''r2'']]"
    by (simp add: all_cards_def catalogue_forest_def leaf_def mk_category_def)
  with f r e s show ?thesis
    by (simp add: catalogue_forest_def leaf_def)
qed

text \<open>
  The claim as first stated fails on a list with a category whose parent is itself a
  subcategory: with both parents expanded, the child of the child is rendered, in a third
  tier.
\<close>

theorem two_tier_counterexample:
  "renderTree 3 [] three_tiers {''a'', ''b''} =
     Some [Card (mk_category ''a'' ''Rings'' None) False 0 0 fallbackImage 1
            [Card (mk_category ''b'' ''Gold Rings'' (Some ''a'')) True 0 0 fallbackImage 1
              [leaf (mk_category ''c'' ''Heavy Gold Rings'' (Some ''b'')) True]]] \<and>
   card_depth
     (Card (mk_category ''a'' ''Rings'' None) False 0 0 fallbackImage 1
       [Card (mk_category ''b'' ''Gold Rings'' (Some ''a'')) True 0 0 fallbackImage 1
         [leaf (mk_category ''c'' ''Heavy Gold Rings'' (Some ''b'')) True]]) = 3"
  by (simp add: render_eval three_tiers_def eval_nat_numeral)

end
